theory Spec2Isabelle
  imports Main "HOL-Library.Sublist"
begin

section \<open>JavaScript strings\<close>

text \<open>
  A JavaScript string is a sequence of UTF-16 code units. A code unit is modelled as a
  natural number, so that the Turkish title string of the server-side locator and the
  Unicode white space of \<open>\s\<close> and \<open>trim\<close> are the ones of the source.
  \<open>ascii\<close> turns an ASCII literal into its code units.
\<close>

type_synonym jschar = nat
type_synonym jsstring = "jschar list"

definition ascii :: "string \<Rightarrow> jsstring" where
  "ascii s = map of_char s"

text \<open>White space as \<open>\s\<close> and \<open>String.prototype.trim\<close> see it:
  TAB, LF, VT, FF, CR, SP, NBSP, U+1680, U+2000..U+200A, LS, PS, U+202F, U+205F, U+3000, BOM.\<close>

definition isWhiteSpace :: "jschar \<Rightarrow> bool" where
  "isWhiteSpace c \<longleftrightarrow>
     c = 9 \<or> c = 10 \<or> c = 11 \<or> c = 12 \<or> c = 13 \<or> c = 32 \<or> c = 160 \<or> c = 5760 \<or>
     (8192 \<le> c \<and> c \<le> 8202) \<or> c = 8232 \<or> c = 8233 \<or> c = 8239 \<or> c = 8287 \<or>
     c = 12288 \<or> c = 65279"

text \<open>\<open>\d\<close> without the unicode flag: the ten ASCII digits.\<close>

definition isDigit :: "jschar \<Rightarrow> bool" where
  "isDigit c \<longleftrightarrow> 48 \<le> c \<and> c \<le> 57"

definition trim :: "jsstring \<Rightarrow> jsstring" where
  "trim s = rev (dropWhile isWhiteSpace (rev (dropWhile isWhiteSpace s)))"

definition startsWith :: "jsstring \<Rightarrow> jsstring \<Rightarrow> bool" where
  "startsWith s p \<longleftrightarrow> take (length p) s = p"

text \<open>\<open>s.includes(sub)\<close>: \<open>sub\<close> occurs at some position of \<open>s\<close>.\<close>

fun includesStr :: "jsstring \<Rightarrow> jsstring \<Rightarrow> bool" where
  "includesStr [] sub = (sub = [])"
| "includesStr (c # cs) sub = (startsWith (c # cs) sub \<or> includesStr cs sub)"

text \<open>\<open>s.indexOf(sub)\<close>: the first position of \<open>sub\<close> in \<open>s\<close>, or \<open>-1\<close>.\<close>

fun firstIndex :: "jsstring \<Rightarrow> jsstring \<Rightarrow> nat option" where
  "firstIndex [] sub = (if sub = [] then Some 0 else None)"
| "firstIndex (c # cs) sub =
     (if startsWith (c # cs) sub then Some 0 else map_option Suc (firstIndex cs sub))"

definition indexOf :: "jsstring \<Rightarrow> jsstring \<Rightarrow> int" where
  "indexOf s sub = (case firstIndex s sub of None \<Rightarrow> - 1 | Some i \<Rightarrow> int i)"

text \<open>\<open>s.substring(i)\<close>: a negative index counts as 0, one past the end gives the empty
  string.\<close>

definition substring :: "jsstring \<Rightarrow> int \<Rightarrow> jsstring" where
  "substring s i = drop (nat i) s"

text \<open>\<open>s.split('\n')\<close>: the empty string gives one empty line, a final line feed gives
  a final empty line.\<close>

fun consHead :: "jschar \<Rightarrow> jsstring list \<Rightarrow> jsstring list" where
  "consHead c [] = [[c]]"
| "consHead c (l # ls) = (c # l) # ls"

fun splitLines :: "jsstring \<Rightarrow> jsstring list" where
  "splitLines [] = [[]]"
| "splitLines (c # cs) = (if c = 10 then [] # splitLines cs else consHead c (splitLines cs))"

text \<open>\<open>xs.join(sep)\<close>.\<close>

fun join :: "jsstring \<Rightarrow> jsstring list \<Rightarrow> jsstring" where
  "join sep [] = []"
| "join sep [x] = x"
| "join sep (x # y # ys) = x @ sep @ join sep (y # ys)"

text \<open>\<open>s.split(/\s+/)\<close>: every maximal run of white space is one separator, so a
  string that starts or ends with white space gets an empty first or last piece, and the
  empty string gives one empty piece. \<open>insep\<close> says that the previous code unit was
  white space; \<open>cur\<close> is the piece read so far.\<close>

fun splitWs :: "jsstring \<Rightarrow> bool \<Rightarrow> jsstring \<Rightarrow> jsstring list" where
  "splitWs [] insep cur = [cur]"
| "splitWs (c # cs) insep cur =
     (if isWhiteSpace c
      then (if insep then splitWs cs True [] else cur # splitWs cs True [])
      else splitWs cs False (cur @ [c]))"

definition splitWhitespace :: "jsstring \<Rightarrow> jsstring list" where
  "splitWhitespace s = splitWs s False []"

text \<open>\<open>xs.slice(start, end)\<close> with JavaScript's relative indices: a negative index
  counts from the end, and both are clamped to the array.\<close>

definition relIndex :: "nat \<Rightarrow> int \<Rightarrow> nat" where
  "relIndex len k = (if k < 0 then nat (max (int len + k) 0) else min (nat k) len)"

definition slice :: "'a list \<Rightarrow> int \<Rightarrow> int \<Rightarrow> 'a list" where
  "slice xs start end =
     (let from = relIndex (length xs) start; to = relIndex (length xs) end
      in take (to - from) (drop from xs))"

subsection \<open>The regular expressions of the source\<close>

text \<open>The three patterns of the source are sequences of single-character classes, apart
  from the \<open>\s+\<close> and \<open>[-]+\<close> runs, which are written out below.\<close>

datatype charClass = Digit | Lit jschar

fun classOk :: "charClass \<Rightarrow> jschar \<Rightarrow> bool" where
  "classOk Digit c = isDigit c"
| "classOk (Lit d) c = (c = d)"

fun matchPrefix :: "charClass list \<Rightarrow> jsstring \<Rightarrow> bool" where
  "matchPrefix [] s = True"
| "matchPrefix (p # ps) [] = False"
| "matchPrefix (p # ps) (c # cs) = (classOk p c \<and> matchPrefix ps cs)"

text \<open>\<open>/\d{4}\.\d{2}\.\d{2}/\<close>\<close>

definition datePattern :: "charClass list" where
  "datePattern = [Digit, Digit, Digit, Digit, Lit 46, Digit, Digit, Lit 46, Digit, Digit]"

text \<open>\<open>\d{2}:\d{2}:\d{2}\<close>\<close>

definition timePattern :: "charClass list" where
  "timePattern = [Digit, Digit, Lit 58, Digit, Digit, Lit 58, Digit, Digit]"

text \<open>\<open>pattern.test(s)\<close> for an unanchored pattern: it matches at some position.\<close>

fun regexTest :: "charClass list \<Rightarrow> jsstring \<Rightarrow> bool" where
  "regexTest pat [] = matchPrefix pat []"
| "regexTest pat (c # cs) = (matchPrefix pat (c # cs) \<or> regexTest pat cs)"

text \<open>\<open>s.match(pattern)\<close> for an unanchored pattern of fixed width: the text of the
  leftmost match, \<open>None\<close> for \<open>null\<close>.\<close>

fun regexMatch :: "charClass list \<Rightarrow> jsstring \<Rightarrow> jsstring option" where
  "regexMatch pat [] = (if matchPrefix pat [] then Some [] else None)"
| "regexMatch pat (c # cs) =
     (if matchPrefix pat (c # cs) then Some (take (length pat) (c # cs)) else regexMatch pat cs)"

text \<open>\<open>/^\d{4}\.\d{2}\.\d{2}\s+\d{2}:\d{2}:\d{2}/.test(line)\<close>: the date at position 0,
  at least one white space, and the time right after the white space run (a digit is not
  white space, so the run is read to its end).\<close>

definition dateTimeAtStart :: "jsstring \<Rightarrow> bool" where
  "dateTimeAtStart line \<longleftrightarrow>
     matchPrefix datePattern line \<and>
     (let rest = drop 10 line
      in rest \<noteq> [] \<and> isWhiteSpace (hd rest) \<and>
         matchPrefix timePattern (dropWhile isWhiteSpace rest))"

text \<open>\<open>s.match(/[-]+/)\<close>: the position and the text of the leftmost run of dashes.\<close>

fun dashMatch :: "jsstring \<Rightarrow> (nat \<times> jsstring) option" where
  "dashMatch [] = None"
| "dashMatch (c # cs) =
     (if c = 45 then Some (0, takeWhile (\<lambda>d. d = 45) (c # cs))
      else map_option (\<lambda>(i, m). (Suc i, m)) (dashMatch cs))"

section \<open>JavaScript numbers\<close>

text \<open>
  \<open>parseFloat\<close> and the conversion of a number to a string (in a template literal) are
  built into the language. They are modelled in exact decimal arithmetic: a finite number
  is \<open>Finite m e\<close>, the value \<open>m * 10 ^ e\<close> with \<open>m\<close> not divisible by 10 (zero is
  \<open>Finite 0 0\<close>; JavaScript's \<open>-0\<close> equals \<open>0\<close> and prints as \<open>0\<close>). The rounding of a literal
  to the nearest binary64 value is not modelled; the model agrees with the language on the
  literals of at most 15 significant digits within the range of binary64, which a binary64
  value carries exactly enough to print back unchanged. A literal beyond that range stays
  the finite number it denotes, where the language gives \<open>Infinity\<close> or \<open>0\<close>. Equality of
  two numbers of the model is sameness of value: \<open>NaN\<close> is the same value as \<open>NaN\<close>, which
  the operator \<open>===\<close> of the language denies.
\<close>

datatype jsnum = NaN | PosInfinity | NegInfinity | Finite int int

definition digitsValue :: "jsstring \<Rightarrow> nat" where
  "digitsValue ds = foldl (\<lambda>a c. 10 * a + (c - 48)) 0 ds"

text \<open>\<open>ExponentPart\<close>: \<open>e\<close> or \<open>E\<close>, an optional sign and at least one digit. Where the
  text does not go on with an exponent part, the longest literal ends before it and the
  exponent is 0.\<close>

definition exponentPart :: "jsstring \<Rightarrow> int" where
  "exponentPart s =
     (case s of
        [] \<Rightarrow> 0
      | c # r \<Rightarrow>
          if c = 101 \<or> c = 69 then
            (case r of
               [] \<Rightarrow> 0
             | d # r' \<Rightarrow>
                 if d = 43 then int (digitsValue (takeWhile isDigit r'))
                 else if d = 45 then - int (digitsValue (takeWhile isDigit r'))
                 else int (digitsValue (takeWhile isDigit r)))
          else 0)"

text \<open>The longest prefix that is a \<open>StrUnsignedDecimalLiteral\<close> other than
  \<open>Infinity\<close>: digits, an optional dot with optional digits, at least one digit in all,
  and an optional exponent part. The result is the digits and the decimal exponent.\<close>

definition unsignedDecimal :: "jsstring \<Rightarrow> (jsstring \<times> int) option" where
  "unsignedDecimal s =
     (let ip = takeWhile isDigit s;
          r1 = dropWhile isDigit s;
          hasDot = (r1 \<noteq> [] \<and> hd r1 = 46);
          fp = (if hasDot then takeWhile isDigit (tl r1) else []);
          r2 = (if hasDot then dropWhile isDigit (tl r1) else r1)
      in if ip = [] \<and> fp = [] then None
         else Some (ip @ fp, exponentPart r2 - int (length fp)))"

definition mkFinite :: "bool \<Rightarrow> jsstring \<Rightarrow> int \<Rightarrow> jsnum" where
  "mkFinite neg ds e =
     (let z = length (takeWhile (\<lambda>c. c = 48) (rev ds));
          m = int (digitsValue (take (length ds - z) ds))
      in if m = 0 then Finite 0 0 else Finite (if neg then - m else m) (e + int z))"

text \<open>\<open>parseFloat(s)\<close>: leading white space is skipped, the longest prefix that is a
  \<open>StrDecimalLiteral\<close> is read, and where there is none the result is \<open>NaN\<close>.
  \<open>parseFloat\<close> never throws.\<close>

definition parseFloat :: "jsstring \<Rightarrow> jsnum" where
  "parseFloat s =
     (let t = dropWhile isWhiteSpace s;
          neg = (t \<noteq> [] \<and> hd t = 45);
          u = (if t \<noteq> [] \<and> (hd t = 45 \<or> hd t = 43) then tl t else t)
      in if startsWith u (ascii ''Infinity'') then (if neg then NegInfinity else PosInfinity)
         else (case unsignedDecimal u of
                 None \<Rightarrow> NaN
               | Some (ds, e) \<Rightarrow> mkFinite neg ds e))"

function digitsOf :: "nat \<Rightarrow> jsstring" where
  "digitsOf n = (if n < 10 then [48 + n] else digitsOf (n div 10) @ [48 + n mod 10])"
  by pat_completeness auto
termination
  by (relation "measure (\<lambda>n. n)") auto

declare digitsOf.simps [simp del]

text \<open>\<open>Number::toString\<close> in radix 10: with \<open>k\<close> digits \<open>s\<close> and the decimal point after
  \<open>n\<close> of them, plain notation for \<open>-6 < n \<le> 21\<close> and exponential notation otherwise.\<close>

definition positiveToString :: "nat \<Rightarrow> int \<Rightarrow> jsstring" where
  "positiveToString m e =
     (let s = digitsOf m; k = int (length s); n = k + e
      in if k \<le> n \<and> n \<le> 21 then s @ replicate (nat (n - k)) 48
         else if 0 < n \<and> n \<le> 21 then take (nat n) s @ [46] @ drop (nat n) s
         else if -6 < n \<and> n \<le> 0 then [48, 46] @ replicate (nat (- n)) 48 @ s
         else (let x = n - 1;
                   sgn = (if x < 0 then 45 else 43);
                   xs = digitsOf (nat \<bar>x\<bar>)
               in if k = 1 then s @ [101, sgn] @ xs
                  else take 1 s @ [46] @ drop 1 s @ [101, sgn] @ xs))"

fun numToString :: "jsnum \<Rightarrow> jsstring" where
  "numToString NaN = ascii ''NaN''"
| "numToString PosInfinity = ascii ''Infinity''"
| "numToString NegInfinity = ascii ''-Infinity''"
| "numToString (Finite m e) =
     (if m = 0 then [48]
      else if m < 0 then 45 # positiveToString (nat (- m)) e
      else positiveToString (nat m) e)"

text \<open>The numbers in the form in which \<open>parseFloat\<close> gives them: the mantissa of a
  finite number other than zero has no factor 10, and zero has the exponent 0.\<close>

definition normalised :: "jsnum \<Rightarrow> bool" where
  "normalised x =
     (case x of Finite m e \<Rightarrow> (if m = 0 then e = 0 else m mod 10 \<noteq> 0) | _ \<Rightarrow> True)"

section \<open>The data model\<close>

record Earthquake =
  date :: jsstring
  time :: jsstring
  latitude :: jsnum
  longitude :: jsnum
  depth :: jsnum
  magnitudeMD :: "jsnum option"
  magnitudeML :: "jsnum option"
  magnitudeMw :: "jsnum option"
  location :: jsstring
  solutionQuality :: jsstring
  id' :: jsstring

text \<open>\<open>parts[i] === "-.-" ? null : parseFloat(parts[i])\<close>\<close>

definition magnitude :: "jsstring \<Rightarrow> jsnum option" where
  "magnitude tok = (if tok = ascii ''-.-'' then None else Some (parseFloat tok))"

text \<open>The template literal \<open>`${date}_${time}_${latitude}_${longitude}`\<close>.\<close>

definition makeId :: "jsstring \<Rightarrow> jsstring \<Rightarrow> jsnum \<Rightarrow> jsnum \<Rightarrow> jsstring" where
  "makeId d t la lo = d @ [95] @ t @ [95] @ numToString la @ [95] @ numToString lo"

section \<open>The client-side parser (services/earthquake-service.ts)\<close>

text \<open>The candidate predicate of both parsers:
  \<open>datePattern.test(line) && line.includes("-.-")\<close>.\<close>

definition candidate :: "jsstring \<Rightarrow> bool" where
  "candidate line \<longleftrightarrow> regexTest datePattern line \<and> includesStr line (ascii ''-.-'')"

text \<open>The callback of \<open>lines.forEach\<close> in the client's \<open>parseEarthquakeData\<close>: \<open>None\<close>
  where it returns without a push, \<open>Some\<close> the record it pushes. Every index it reads is
  in range once there are ten parts, and nothing in it throws, so its \<open>catch\<close> is never
  entered.\<close>

definition client_parseLine :: "jsstring \<Rightarrow> Earthquake option" where
  "client_parseLine line =
     (let parts = splitWhitespace (trim line)
      in if length parts < 10 then None
         else
           (let date = parts ! 0;
                time = parts ! 1;
                latitude = parseFloat (parts ! 2);
                longitude = parseFloat (parts ! 3);
                depth = parseFloat (parts ! 4);
                magnitudeMD = magnitude (parts ! 5);
                magnitudeML = magnitude (parts ! 6);
                magnitudeMw = magnitude (parts ! 7);
                solutionQuality = trim (parts ! (length parts - 1));
                locationStart = 8;
                locationEnd = int (length parts) - 2;
                locationEnd =
                  (if startsWith solutionQuality (ascii ''REVIZE'') \<and>
                      startsWith (parts ! (length parts - 2)) (ascii ''('')
                   then locationEnd - 1 else locationEnd);
                location = trim (join (ascii '' '') (slice parts locationStart (locationEnd + 1)))
            in Some \<lparr> date = date, time = time, latitude = latitude, longitude = longitude,
                      depth = depth, magnitudeMD = magnitudeMD, magnitudeML = magnitudeML,
                      magnitudeMw = magnitudeMw, location = location,
                      solutionQuality = solutionQuality,
                      id' = makeId date time latitude longitude \<rparr>))"

text \<open>\<open>forEach\<close> with a callback that pushes to an array.\<close>

definition pushEach :: "('a \<Rightarrow> 'b option) \<Rightarrow> 'a list \<Rightarrow> 'b list" where
  "pushEach f xs = foldl (\<lambda>acc x. case f x of None \<Rightarrow> acc | Some y \<Rightarrow> acc @ [y]) [] xs"

text \<open>\<open>text.split('\n').filter(line => line.trim().length > 0)
  .filter(line => datePattern.test(line) && line.includes("-.-"))\<close>\<close>

definition candidateLines :: "jsstring \<Rightarrow> jsstring list" where
  "candidateLines text =
     filter candidate (filter (\<lambda>line. length (trim line) > 0) (splitLines text))"

definition client_parseEarthquakeData :: "jsstring \<Rightarrow> Earthquake list" where
  "client_parseEarthquakeData rawText =
     (let lines = candidateLines rawText
      in if length lines = 0 then [] else pushEach client_parseLine lines)"

section \<open>The server-side parser (actions.ts)\<close>

text \<open>The callback of \<open>dataLines.forEach\<close> in \<open>parseEarthquakeLines\<close>. The line it gets
  is already trimmed. \<open>None\<close> where it returns without a push.\<close>

definition server_parseLine :: "jsstring \<Rightarrow> Earthquake option" where
  "server_parseLine line =
     (if \<not> dateTimeAtStart line then None
      else
        (let parts = splitWhitespace (trim line)
         in if length parts < 10 then None
            else
              (let date = parts ! 0;
                   time = parts ! 1;
                   latitude = parseFloat (parts ! 2);
                   longitude = parseFloat (parts ! 3);
                   depth = parseFloat (parts ! 4);
                   magnitudeMD = magnitude (parts ! 5);
                   magnitudeML = magnitude (parts ! 6);
                   magnitudeMw = magnitude (parts ! 7);
                   locationStart = 8;
                   locationEnd = int (length parts) - 1;
                   solutionQuality = trim (parts ! nat locationEnd);
                   locationEnd =
                     (if startsWith solutionQuality (ascii ''REVIZE'') \<and>
                         startsWith (parts ! nat (locationEnd - 1)) (ascii ''('')
                      then locationEnd - 2 else locationEnd);
                   location =
                     trim (join (ascii '' '') (slice parts locationStart (locationEnd + 1)))
               in Some \<lparr> date = date, time = time, latitude = latitude, longitude = longitude,
                         depth = depth, magnitudeMD = magnitudeMD, magnitudeML = magnitudeML,
                         magnitudeMw = magnitudeMw, location = location,
                         solutionQuality = solutionQuality,
                         id' = makeId date time latitude longitude \<rparr>)))"

definition parseEarthquakeLines :: "jsstring \<Rightarrow> Earthquake list" where
  "parseEarthquakeLines dataSection =
     (let dataLines = filter (\<lambda>line. length line > 0) (map trim (splitLines dataSection))
      in pushEach server_parseLine dataLines)"

definition headerText :: jsstring where
  "headerText =
     ascii ''Tarih      Saat      Enlem(N)  Boylam(E) Derinlik(km)  MD   ML   Mw    Yer''"

text \<open>The last title is the Turkish one, with U+00DC, U+0130 and U+00C7.\<close>

definition alternateHeaders :: "jsstring list" where
  "alternateHeaders =
     [ascii ''Tarih'',
      ascii ''Date'',
      ascii ''TURKIYE VE YAKIN CEVRESINDEKI SON DEPREMLER'',
      ascii ''T'' @ [220] @ ascii ''RK'' @ [304] @ ascii ''YE VE YAKIN '' @ [199] @
      ascii ''EVRES'' @ [304] @ ascii ''NDEK'' @ [304] @ ascii '' SON DEPREMLER'']"

text \<open>The loop over the alternate headers, with the \<open>return []\<close> that follows it: a
  header that is absent, that has no date after it, or that has no candidate line after
  its first date, leaves the loop running.\<close>

fun tryAlternateHeaders :: "jsstring \<Rightarrow> jsstring list \<Rightarrow> Earthquake list" where
  "tryAlternateHeaders rawText [] = []"
| "tryAlternateHeaders rawText (h # hs) =
     (let index = indexOf rawText h
      in if index \<noteq> - 1 then
           (let afterHeader = substring rawText index
            in case regexMatch datePattern afterHeader of
                 None \<Rightarrow> tryAlternateHeaders rawText hs
               | Some m \<Rightarrow>
                   (let startIndex = indexOf afterHeader m + index;
                        dataSection = substring rawText startIndex;
                        earthquakeLines = candidateLines dataSection
                    in if length earthquakeLines > 0
                       then parseEarthquakeLines (join [10] earthquakeLines)
                       else tryAlternateHeaders rawText hs))
         else tryAlternateHeaders rawText hs)"

text \<open>The server's \<open>parseEarthquakeData\<close>. \<open>find\<close> gives the first candidate line, and
  \<open>if (dateLine)\<close> holds for a line that is found and not empty.\<close>

definition server_parseEarthquakeData :: "jsstring \<Rightarrow> Earthquake list" where
  "server_parseEarthquakeData rawText =
     (let dateLine = find candidate (splitLines rawText)
      in if (case dateLine of None \<Rightarrow> False | Some l \<Rightarrow> l \<noteq> []) then
           (let earthquakeLines = candidateLines rawText
            in parseEarthquakeLines (join [10] earthquakeLines))
         else
           (let headerIndex = indexOf rawText headerText
            in if headerIndex = - 1 then tryAlternateHeaders rawText alternateHeaders
               else
                 (let afterHeader = substring rawText (headerIndex + int (length headerText))
                  in case dashMatch afterHeader of
                       None \<Rightarrow> []
                     | Some (separatorIndex, separator) \<Rightarrow>
                         (let afterSeparator =
                                substring afterHeader (int separatorIndex + int (length separator));
                              earthquakeLines = candidateLines afterSeparator
                          in if length earthquakeLines > 0
                             then parseEarthquakeLines (join [10] earthquakeLines)
                             else []))))"

section \<open>The client-side acquisition chain (services/earthquake-service.ts)\<close>

text \<open>
  The three requests of the chain, and what the network does with each. \<open>fetch\<close> either
  rejects or resolves to a response; \<open>response.text()\<close> either rejects or resolves to the
  body. Every function of the chain requests its address at most once, so the network is
  a function of the address. \<open>fallbackEarthquakeData\<close> is imported from a module that is
  not part of the sources at hand and is a parameter \<open>fallback\<close>.

  A function of the chain returns the addresses it has requested, in order, and how its
  promise settles: \<open>Inl\<close> rejected, \<open>Inr\<close> fulfilled.
\<close>

datatype endpoint = Koeri | LocalProxy | CorsProxy

datatype thrown = Thrown jsstring

record response =
  ok :: bool
  status :: nat
  text_body :: "thrown + jsstring"

type_synonym network = "endpoint \<Rightarrow> thrown + response"

type_synonym settled = "endpoint list \<times> (thrown + Earthquake list)"

text \<open>\<open>const x = await p; rest\<close> inside a \<open>try\<close> block: a rejection of \<open>p\<close> is thrown and
  the rest is not run.\<close>

definition await :: "thrown + 'a \<Rightarrow> ('a \<Rightarrow> thrown + 'b) \<Rightarrow> thrown + 'b" where
  "await p rest = (case p of Inl err \<Rightarrow> Inl err | Inr x \<Rightarrow> rest x)"

text \<open>\<open>try { body } catch (error) { handler }\<close> where both end in a \<open>return\<close>: the value
  is what the body returns, or what the handler returns when the body throws. What is
  returned is a list of records or the promise of a call; a promise that is returned
  without \<open>await\<close> settles the caller's promise as it settles itself, outside the
  \<open>try\<close>.\<close>

definition tryCatch :: "thrown + 'a \<Rightarrow> (thrown \<Rightarrow> 'a) \<Rightarrow> 'a" where
  "tryCatch body handler = (case body of Inl err \<Rightarrow> handler err | Inr r \<Rightarrow> r)"

text \<open>A function that first requests \<open>e\<close> and then settles as \<open>r\<close>, which holds the
  requests made after that.\<close>

definition after :: "endpoint \<Rightarrow> settled \<Rightarrow> settled" where
  "after e r = (e # fst r, snd r)"

definition fetchWithPublicProxy :: "network \<Rightarrow> Earthquake list \<Rightarrow> settled" where
  "fetchWithPublicProxy net fallback =
     after CorsProxy
       (tryCatch
          (await (net CorsProxy) (\<lambda>response.
             if \<not> ok response then Inr ([], Inr fallback)
             else
               await (text_body response) (\<lambda>text.
                 (let earthquakes = client_parseEarthquakeData text
                  in if length earthquakes = 0 then Inr ([], Inr fallback)
                     else Inr ([], Inr earthquakes)))))
          (\<lambda>error. ([], Inr fallback)))"

definition fetchWithProxy :: "network \<Rightarrow> Earthquake list \<Rightarrow> settled" where
  "fetchWithProxy net fallback =
     after LocalProxy
       (tryCatch
          (await (net LocalProxy) (\<lambda>response.
             if \<not> ok response then Inr (fetchWithPublicProxy net fallback)
             else
               await (text_body response) (\<lambda>text.
                 (let earthquakes = client_parseEarthquakeData text
                  in if length earthquakes = 0 then Inr (fetchWithPublicProxy net fallback)
                     else Inr ([], Inr earthquakes)))))
          (\<lambda>error. fetchWithPublicProxy net fallback))"

definition fetchEarthquakeData :: "network \<Rightarrow> Earthquake list \<Rightarrow> settled" where
  "fetchEarthquakeData net fallback =
     after Koeri
       (tryCatch
          (await (net Koeri) (\<lambda>response.
             if \<not> ok response then Inr (fetchWithProxy net fallback)
             else
               await (text_body response) (\<lambda>text.
                 (let earthquakes = client_parseEarthquakeData text
                  in if length earthquakes = 0 then Inr (fetchWithProxy net fallback)
                     else Inr ([], Inr earthquakes)))))
          (\<lambda>error. fetchWithProxy net fallback))"

subsection \<open>Usable data\<close>

text \<open>
  The notion of the specification (section 4.3): a stage has produced usable data when
  the request succeeds, the response is \<open>ok\<close>, its body can be read and the parser
  extracts at least one record from it. \<open>stageRecords\<close> are the records parsed from the
  body of a stage, none where there is no body.
\<close>

definition stageRecords :: "network \<Rightarrow> endpoint \<Rightarrow> Earthquake list" where
  "stageRecords net e =
     (case net e of
        Inl err \<Rightarrow> []
      | Inr response \<Rightarrow>
          (case text_body response of
             Inl err \<Rightarrow> []
           | Inr text \<Rightarrow> client_parseEarthquakeData text))"

definition usable :: "network \<Rightarrow> endpoint \<Rightarrow> bool" where
  "usable net e \<longleftrightarrow>
     (case net e of Inl err \<Rightarrow> False | Inr response \<Rightarrow> ok response) \<and> stageRecords net e \<noteq> []"

section \<open>The console of the parsers\<close>

text \<open>
  Both parsers write their progress to the console, so that the path a call takes through
  the report locator is an effect of the call and not only a matter of what it returns.
  A message is kept as the call of \<open>console.log\<close>, \<open>console.warn\<close> or \<open>console.error\<close>
  that writes it, together with the values the call interpolates or appends:

  \<^item> \<open>ClientParsing\<close>: "Client-side: Parsing earthquake data...";
  \<^item> \<open>ClientFoundLines n\<close>: "Client-side: Found n potential earthquake data lines";
  \<^item> \<open>ClientSkippingInvalidLine line\<close>: "Client-side: Skipping invalid line: line";
  \<^item> \<open>ClientParsed n\<close>: "Client-side: Successfully parsed n earthquakes";
  \<^item> \<open>StartingToParse\<close>: "Starting to parse earthquake data...";
  \<^item> \<open>FoundLineWithData line\<close>: "Found a line with earthquake data:" and the line;
  \<^item> \<open>FoundLines n\<close>: "Found n potential earthquake data lines";
  \<^item> \<open>FoundAlternateHeader h i\<close>: "Found alternate header: "h" at position i";
  \<^item> \<open>FoundDatePattern m\<close>: "Found date pattern m after header";
  \<^item> \<open>FoundLinesUsingDatePattern n\<close>:
    "Found n potential earthquake data lines using date pattern";
  \<^item> \<open>NoDataSection\<close>:
    "Could not find earthquake data section in the response using any known pattern";
  \<^item> \<open>NoSeparator\<close>: "Could not find separator after header";
  \<^item> \<open>FoundLinesAfterSeparator n\<close>:
    "Found n potential earthquake data lines after header and separator";
  \<^item> \<open>NoLinesAfterHeader\<close>:
    "Could not extract earthquake data lines even after finding header";
  \<^item> \<open>DataSectionStart s\<close>: "Data section start:" and the text;
  \<^item> \<open>FoundNonEmptyLines n\<close>: "Found n non-empty lines";
  \<^item> \<open>FirstLine line\<close>: "First line:" and the line;
  \<^item> \<open>SkippingInvalidDataLine line\<close>: "Skipping invalid data line: line";
  \<^item> \<open>ParsedEntries n\<close>: "Successfully parsed n earthquake entries".

  The messages of the \<open>catch\<close> blocks are never written, since nothing in the parsers
  throws.
\<close>

datatype message =
    ClientParsing
  | ClientFoundLines nat
  | ClientSkippingInvalidLine jsstring
  | ClientParsed nat
  | StartingToParse
  | FoundLineWithData jsstring
  | FoundLines nat
  | FoundAlternateHeader jsstring int
  | FoundDatePattern jsstring
  | FoundLinesUsingDatePattern nat
  | NoDataSection
  | NoSeparator
  | FoundLinesAfterSeparator nat
  | NoLinesAfterHeader
  | DataSectionStart jsstring
  | FoundNonEmptyLines nat
  | FirstLine jsstring
  | SkippingInvalidDataLine jsstring
  | ParsedEntries nat

text \<open>A call gives the messages it writes, in order, and what it returns. \<open>logging ms r\<close>
  writes \<open>ms\<close> and goes on with \<open>r\<close>.\<close>

type_synonym 'a logged = "message list \<times> 'a"

definition logging :: "message list \<Rightarrow> 'a logged \<Rightarrow> 'a logged" where
  "logging ms r = (ms @ fst r, snd r)"

text \<open>\<open>forEach\<close> with a callback that writes to the console and pushes to an array.\<close>

definition forEachLogged :: "('a \<Rightarrow> 'b option logged) \<Rightarrow> 'a list \<Rightarrow> 'b list logged" where
  "forEachLogged f xs =
     foldl (\<lambda>(console, acc) x.
              case f x of
                (ms, None) \<Rightarrow> (console @ ms, acc)
              | (ms, Some y) \<Rightarrow> (console @ ms, acc @ [y]))
           ([], []) xs"

subsection \<open>The client\<close>

text \<open>The callback of \<open>lines.forEach\<close>: it warns where it finds fewer than ten parts, and
  writes nothing where it pushes a record.\<close>

definition client_parseLine_logged :: "jsstring \<Rightarrow> Earthquake option logged" where
  "client_parseLine_logged line =
     (let parts = splitWhitespace (trim line)
      in if length parts < 10 then ([ClientSkippingInvalidLine line], None)
         else ([], client_parseLine line))"

text \<open>The client's \<open>parseEarthquakeData\<close>: after the direct scan it returns, or parses
  the lines it found. It looks for no header.\<close>

definition client_parseEarthquakeData_logged :: "jsstring \<Rightarrow> Earthquake list logged" where
  "client_parseEarthquakeData_logged rawText =
     logging [ClientParsing]
       (let lines = candidateLines rawText
        in logging [ClientFoundLines (length lines)]
             (if length lines = 0 then ([], [])
              else
                (let (console, earthquakes) = forEachLogged client_parseLine_logged lines
                 in (console @ [ClientParsed (length earthquakes)], earthquakes))))"

subsection \<open>The server\<close>

text \<open>The callback of \<open>dataLines.forEach\<close>: a line that does not start with date and time
  is skipped in silence, one with fewer than ten parts with a warning.\<close>

definition server_parseLine_logged :: "jsstring \<Rightarrow> Earthquake option logged" where
  "server_parseLine_logged line =
     (if \<not> dateTimeAtStart line then ([], None)
      else
        (let parts = splitWhitespace (trim line)
         in if length parts < 10 then ([SkippingInvalidDataLine line], None)
            else ([], server_parseLine line)))"

text \<open>\<open>parseEarthquakeLines\<close>; \<open>dataSection.substring(0, 200)\<close> is the first 200 code
  units.\<close>

definition parseEarthquakeLines_logged :: "jsstring \<Rightarrow> Earthquake list logged" where
  "parseEarthquakeLines_logged dataSection =
     logging [DataSectionStart (take 200 dataSection)]
       (let dataLines = filter (\<lambda>line. length line > 0) (map trim (splitLines dataSection))
        in logging [FoundNonEmptyLines (length dataLines)]
             (logging (if length dataLines > 0 then [FirstLine (dataLines ! 0)] else [])
                (let (console, parsedData) = forEachLogged server_parseLine_logged dataLines
                 in (console @ [ParsedEntries (length parsedData)], parsedData))))"

text \<open>The loop over the alternate headers, with the error message and the \<open>return []\<close>
  that follow it.\<close>

fun tryAlternateHeaders_logged :: "jsstring \<Rightarrow> jsstring list \<Rightarrow> Earthquake list logged" where
  "tryAlternateHeaders_logged rawText [] = ([NoDataSection], [])"
| "tryAlternateHeaders_logged rawText (h # hs) =
     (let index = indexOf rawText h
      in if index \<noteq> - 1 then
           logging [FoundAlternateHeader h index]
             (let afterHeader = substring rawText index
              in case regexMatch datePattern afterHeader of
                   None \<Rightarrow> tryAlternateHeaders_logged rawText hs
                 | Some m \<Rightarrow>
                     logging [FoundDatePattern m]
                       (let startIndex = indexOf afterHeader m + index;
                            dataSection = substring rawText startIndex;
                            earthquakeLines = candidateLines dataSection
                        in logging [FoundLinesUsingDatePattern (length earthquakeLines)]
                             (if length earthquakeLines > 0
                              then parseEarthquakeLines_logged (join [10] earthquakeLines)
                              else tryAlternateHeaders_logged rawText hs)))
         else tryAlternateHeaders_logged rawText hs)"

text \<open>The server's \<open>parseEarthquakeData\<close>: the direct scan, then the alternate headers
  where the exact header is absent, and the separator after the exact header where it is
  present.\<close>

definition server_parseEarthquakeData_logged :: "jsstring \<Rightarrow> Earthquake list logged" where
  "server_parseEarthquakeData_logged rawText =
     logging [StartingToParse]
       (let dateLine = find candidate (splitLines rawText)
        in if (case dateLine of None \<Rightarrow> False | Some l \<Rightarrow> l \<noteq> []) then
             logging (case dateLine of None \<Rightarrow> [] | Some l \<Rightarrow> [FoundLineWithData l])
               (let earthquakeLines = candidateLines rawText
                in logging [FoundLines (length earthquakeLines)]
                     (parseEarthquakeLines_logged (join [10] earthquakeLines)))
           else
             (let headerIndex = indexOf rawText headerText
              in if headerIndex = - 1
                 then tryAlternateHeaders_logged rawText alternateHeaders
                 else
                   (let afterHeader =
                          substring rawText (headerIndex + int (length headerText))
                    in case dashMatch afterHeader of
                         None \<Rightarrow> ([NoSeparator], [])
                       | Some (separatorIndex, separator) \<Rightarrow>
                           (let afterSeparator =
                                  substring afterHeader
                                    (int separatorIndex + int (length separator));
                                earthquakeLines = candidateLines afterSeparator
                            in logging [FoundLinesAfterSeparator (length earthquakeLines)]
                                 (if length earthquakeLines > 0
                                  then parseEarthquakeLines_logged (join [10] earthquakeLines)
                                  else ([NoLinesAfterHeader], []))))))"

subsection \<open>What a header scan that finds no line writes\<close>

text \<open>
  The messages of the scan anchored at one alternate header \<open>h\<close>, when it finds no line:
  nothing where the text does not contain \<open>h\<close>; otherwise the header with the position of
  its first occurrence and, where a date follows that position, the first such date and
  the count of zero lines found from that date to the end of the text.
\<close>

definition headerScanWithoutLines :: "jsstring \<Rightarrow> jsstring \<Rightarrow> message list" where
  "headerScanWithoutLines text h =
     (if indexOf text h = - 1 then []
      else FoundAlternateHeader h (indexOf text h) #
           (case regexMatch datePattern (substring text (indexOf text h)) of
              None \<Rightarrow> []
            | Some m \<Rightarrow> [FoundDatePattern m, FoundLinesUsingDatePattern 0]))"

section \<open>Evaluation\<close>

text \<open>The equations that evaluate the model on a concrete text. They are used with the
  weak congruence rule for \<open>let\<close>, so that a bound value is computed before it is used.\<close>

lemmas string_eval = ascii_def isWhiteSpace_def isDigit_def trim_def startsWith_def
  splitWhitespace_def relIndex_def slice_def datePattern_def timePattern_def candidate_def
  candidateLines_def dateTimeAtStart_def indexOf_def substring_def pushEach_def

lemmas number_eval = parseFloat_def unsignedDecimal_def mkFinite_def exponentPart_def
  digitsValue_def positiveToString_def digitsOf.simps magnitude_def makeId_def

lemmas client_eval = client_parseEarthquakeData_def client_parseLine_def

lemmas server_eval = server_parseEarthquakeData_def parseEarthquakeLines_def
  server_parseLine_def headerText_def alternateHeaders_def

lemmas console_eval = logging_def forEachLogged_def client_parseLine_logged_def
  client_parseEarthquakeData_logged_def server_parseLine_logged_def
  parseEarthquakeLines_logged_def server_parseEarthquakeData_logged_def
  headerScanWithoutLines_def

section \<open>Lists, white space and tokens\<close>

text \<open>\<open>forEach\<close> with a push keeps the results of the lines in their order.\<close>

lemma foldl_push:
  "foldl (\<lambda>acc x. case f x of None \<Rightarrow> acc | Some y \<Rightarrow> acc @ [y]) acc xs =
   acc @ List.map_filter f xs"
  by (induction xs arbitrary: acc) (auto split: option.splits)

lemma pushEach_map_filter: "pushEach f xs = List.map_filter f xs"
  by (simp add: pushEach_def foldl_push)

lemma pushEach_append: "pushEach f (xs @ ys) = pushEach f xs @ pushEach f ys"
  by (simp add: pushEach_map_filter List.map_filter_def)

lemma pushEach_Cons_Some: "f x = Some y \<Longrightarrow> pushEach f (x # xs) = y # pushEach f xs"
  by (simp add: pushEach_map_filter)

lemma splitWs_no_ws:
  "\<forall>c\<in>set cur. \<not> isWhiteSpace c \<Longrightarrow>
   \<forall>p\<in>set (splitWs s insep cur). \<forall>c\<in>set p. \<not> isWhiteSpace c"
proof (induction s arbitrary: insep cur)
  case Nil
  then show ?case by simp
next
  case (Cons a s)
  have sep: "\<forall>p\<in>set (splitWs s True []). \<forall>c\<in>set p. \<not> isWhiteSpace c"
    by (rule Cons.IH) simp
  have tok: "\<forall>p\<in>set (splitWs s False (cur @ [a])). \<forall>c\<in>set p. \<not> isWhiteSpace c"
    if "\<not> isWhiteSpace a"
    by (rule Cons.IH) (use that Cons.prems in auto)
  show ?case using sep tok Cons.prems by auto
qed

lemma splitWs_nonempty:
  "(s = [] \<longrightarrow> cur \<noteq> []) \<Longrightarrow>
   (s \<noteq> [] \<longrightarrow> \<not> isWhiteSpace (last s)) \<Longrightarrow>
   (cur = [] \<and> \<not> insep \<longrightarrow> s \<noteq> [] \<and> \<not> isWhiteSpace (hd s)) \<Longrightarrow>
   [] \<notin> set (splitWs s insep cur)"
proof (induction s arbitrary: insep cur)
  case Nil
  then show ?case by simp
next
  case (Cons c cs)
  show ?case
  proof (cases "isWhiteSpace c")
    case True
    with Cons.prems have cs: "cs \<noteq> []" by auto
    with Cons.prems have l: "\<not> isWhiteSpace (last cs)" by auto
    have "[] \<notin> set (splitWs cs True [])"
      by (rule Cons.IH) (use cs l in auto)
    with True Cons.prems show ?thesis by auto
  next
    case False
    have "[] \<notin> set (splitWs cs False (cur @ [c]))"
      by (rule Cons.IH) (use Cons.prems in \<open>auto split: if_splits\<close>)
    with False show ?thesis by simp
  qed
qed

lemma last_dropWhile_nonempty: "dropWhile P xs \<noteq> [] \<Longrightarrow> last (dropWhile P xs) = last xs"
  by (induction xs) (auto split: if_splits)

lemma dropWhile_hd_id: "xs \<noteq> [] \<Longrightarrow> \<not> P (hd xs) \<Longrightarrow> dropWhile P xs = xs"
  by (cases xs) auto

lemma trim_ends:
  assumes "trim s \<noteq> []"
  shows "\<not> isWhiteSpace (hd (trim s))" and "\<not> isWhiteSpace (last (trim s))"
proof -
  define t where "t = dropWhile isWhiteSpace s"
  define u where "u = dropWhile isWhiteSpace (rev t)"
  have tr: "trim s = rev u" by (simp add: trim_def t_def u_def)
  with assms have u: "u \<noteq> []" by simp
  have t: "t \<noteq> []"
  proof
    assume "t = []"
    then have "u = []" unfolding u_def by simp
    with u show False by simp
  qed
  have "\<not> isWhiteSpace (hd u)" unfolding u_def using u[unfolded u_def] by (rule hd_dropWhile)
  then show "\<not> isWhiteSpace (last (trim s))" using u by (simp add: tr last_rev)
  have "hd (trim s) = last u" using u by (simp add: tr hd_rev)
  also have "\<dots> = last (rev t)"
    unfolding u_def using u[unfolded u_def] by (simp add: last_dropWhile_nonempty)
  also have "\<dots> = hd t" using t by (simp add: last_rev)
  finally show "\<not> isWhiteSpace (hd (trim s))"
    using hd_dropWhile[of isWhiteSpace s] t by (simp add: t_def)
qed

lemma trim_id: "s = [] \<or> (\<not> isWhiteSpace (hd s) \<and> \<not> isWhiteSpace (last s)) \<Longrightarrow> trim s = s"
proof (cases s)
  case Nil then show ?thesis by (simp add: trim_def)
next
  case (Cons a as)
  assume "s = [] \<or> (\<not> isWhiteSpace (hd s) \<and> \<not> isWhiteSpace (last s))"
  with Cons have h: "\<not> isWhiteSpace a" and l: "\<not> isWhiteSpace (last s)" by auto
  have 1: "dropWhile isWhiteSpace s = s" using Cons h by simp
  have "rev s \<noteq> []" using Cons by simp
  moreover have "hd (rev s) = last s" using Cons by (simp add: hd_rev)
  ultimately have 2: "dropWhile isWhiteSpace (rev s) = rev s"
    using l by (intro dropWhile_hd_id) simp_all
  show ?thesis by (simp add: trim_def 1 2)
qed

lemma tokens_of_trimmed:
  assumes "trim line \<noteq> []" and "p \<in> set (splitWhitespace (trim line))"
  shows "p \<noteq> []" and "\<forall>c\<in>set p. \<not> isWhiteSpace c"
proof -
  have "[] \<notin> set (splitWs (trim line) False [])"
    by (rule splitWs_nonempty) (use assms(1) trim_ends[OF assms(1)] in auto)
  with assms(2) show "p \<noteq> []" by (auto simp: splitWhitespace_def)
  show "\<forall>c\<in>set p. \<not> isWhiteSpace c"
    using splitWs_no_ws[of "[]" "trim line" False] assms(2) by (auto simp: splitWhitespace_def)
qed

lemma token_trim: "p \<noteq> [] \<Longrightarrow> \<forall>c\<in>set p. \<not> isWhiteSpace c \<Longrightarrow> trim p = p"
  by (rule trim_id) simp

lemma join_ends:
  assumes "toks \<noteq> []" and "\<forall>p\<in>set toks. p \<noteq> []"
  shows "join sep toks \<noteq> []"
    and "hd (join sep toks) = hd (hd toks)"
    and "last (join sep toks) = last (last toks)"
  using assms by (induction sep toks rule: join.induct) auto

lemma join_tokens_trim:
  assumes "\<forall>p\<in>set toks. p \<noteq> [] \<and> (\<forall>c\<in>set p. \<not> isWhiteSpace c)"
  shows "trim (join sep toks) = join sep toks"
proof (cases toks)
  case Nil then show ?thesis by (simp add: trim_def)
next
  case (Cons a as)
  then have ne: "toks \<noteq> []" by simp
  have all: "\<forall>p\<in>set toks. p \<noteq> []" using assms by simp
  have "hd toks \<in> set toks" "last toks \<in> set toks" using ne by simp_all
  then have "\<not> isWhiteSpace (hd (hd toks))" "\<not> isWhiteSpace (last (last toks))"
    using assms by (metis hd_in_set, metis last_in_set)
  then show ?thesis using join_ends[OF ne all, of sep] by (intro trim_id) simp
qed

lemma slice_location:
  assumes "10 \<le> length parts"
  shows "slice parts 8 (int (length parts) - 2) = take (length parts - 10) (drop 8 parts)"
    and "slice parts 8 (int (length parts) - 1) = take (length parts - 9) (drop 8 parts)"
    and "slice parts 8 (int (length parts)) = drop 8 parts"
proof -
  have a: "nat (int (length parts) - 2) = length parts - 2"
    and b: "nat (int (length parts) - 1) = length parts - 1"
    and c: "\<not> int (length parts) - 2 < 0" "\<not> int (length parts) - 1 < 0"
    using assms by auto
  have d: "length parts - 2 - 8 = length parts - 10" "length parts - 1 - 8 = length parts - 9"
    by simp_all
  show "slice parts 8 (int (length parts) - 2) = take (length parts - 10) (drop 8 parts)"
    using assms by (simp add: slice_def relIndex_def Let_def a c d)
  show "slice parts 8 (int (length parts) - 1) = take (length parts - 9) (drop 8 parts)"
    using assms by (simp add: slice_def relIndex_def Let_def b c d)
  show "slice parts 8 (int (length parts)) = drop 8 parts"
    using assms by (simp add: slice_def relIndex_def Let_def)
qed

lemma tokens_facts:
  assumes "parts = splitWhitespace (trim line)" and "10 \<le> length parts"
  shows "\<forall>p\<in>set parts. p \<noteq> [] \<and> (\<forall>c\<in>set p. \<not> isWhiteSpace c)"
    and "trim (parts ! (length parts - 1)) = last parts"
    and "trim (join sep (take n (drop k parts))) = join sep (take n (drop k parts))"
    and "trim (join sep (drop k parts)) = join sep (drop k parts)"
proof -
  have ne: "trim line \<noteq> []"
  proof
    assume "trim line = []"
    then have "length parts = 1" using assms(1) by (simp add: splitWhitespace_def)
    with assms(2) show False by simp
  qed
  show all: "\<forall>p\<in>set parts. p \<noteq> [] \<and> (\<forall>c\<in>set p. \<not> isWhiteSpace c)"
    using tokens_of_trimmed[OF ne] assms(1) by blast
  have pne: "parts \<noteq> []" using assms(2) by auto
  then have "last parts \<in> set parts" by simp
  with all have "trim (last parts) = last parts" by (intro token_trim) auto
  then show "trim (parts ! (length parts - 1)) = last parts"
    using pne by (simp add: last_conv_nth)
  have "set (take n (drop k parts)) \<subseteq> set parts"
    by (meson set_take_subset set_drop_subset subset_trans)
  with all show "trim (join sep (take n (drop k parts))) = join sep (take n (drop k parts))"
    by (intro join_tokens_trim) blast
  have "set (drop k parts) \<subseteq> set parts" by (rule set_drop_subset)
  with all show "trim (join sep (drop k parts)) = join sep (drop k parts)"
    by (intro join_tokens_trim) blast
qed

section \<open>The end-to-end example\<close>

text \<open>On the client the example line of the specification gives the record of the
  specification.\<close>

lemma client_end_to_end_example:
  "client_parseEarthquakeData
     (ascii ''2024.03.15 14:23:11 38.4521 27.1234 7.3 -.- 3.2 -.- SOME PLACE NAME  C'') =
   [\<lparr> date = ascii ''2024.03.15'', time = ascii ''14:23:11'',
      latitude = Finite 384521 (- 4), longitude = Finite 271234 (- 4),
      depth = Finite 73 (- 1), magnitudeMD = None, magnitudeML = Some (Finite 32 (- 1)),
      magnitudeMw = None, location = ascii ''SOME PLACE NAME'',
      solutionQuality = ascii ''C'',
      id' = ascii ''2024.03.15_14:23:11_38.4521_27.1234'' \<rparr>]"
  by (simp add: string_eval number_eval client_eval Let_def cong: let_weak_cong)

text \<open>
  Claim C2: given the single line
  \<open>2024.03.15 14:23:11 38.4521 27.1234 7.3 -.- 3.2 -.- SOME PLACE NAME  C\<close> as the raw
  text, the parsing pipeline produces exactly one record: date \<open>2024.03.15\<close>, time
  \<open>14:23:11\<close>, latitude 38.4521, longitude 27.1234, depth 7.3, no MD magnitude, ML
  magnitude 3.2, no Mw magnitude, location \<open>SOME PLACE NAME\<close>, solution quality \<open>C\<close>
  and id \<open>2024.03.15_14:23:11_38.4521_27.1234\<close>.

  The server-side pipeline produces one record whose fields are those of the claim except
  the location, which is \<open>SOME PLACE NAME C\<close>: the quality token is part of it.
\<close>

theorem server_end_to_end_example:
  "server_parseEarthquakeData
     (ascii ''2024.03.15 14:23:11 38.4521 27.1234 7.3 -.- 3.2 -.- SOME PLACE NAME  C'') =
   [\<lparr> date = ascii ''2024.03.15'', time = ascii ''14:23:11'',
      latitude = Finite 384521 (- 4), longitude = Finite 271234 (- 4),
      depth = Finite 73 (- 1), magnitudeMD = None, magnitudeML = Some (Finite 32 (- 1)),
      magnitudeMw = None, location = ascii ''SOME PLACE NAME C'',
      solutionQuality = ascii ''C'',
      id' = ascii ''2024.03.15_14:23:11_38.4521_27.1234'' \<rparr>]"
  by (simp add: string_eval number_eval server_eval Let_def cong: let_weak_cong)

section \<open>The right boundary of the location\<close>

text \<open>
  Claim C1: the location of a record never contains the trailing solution-quality token;
  a line that ends in an ordinary quality code has exactly its last token excluded from
  the location, and that token is the solution quality.

  On a line of the upstream report that ends in the ordinary quality code \<open>Ilksel\<close>, the
  client excludes the code from the location, and the server keeps it there.
\<close>

theorem server_location_keeps_quality_token:
  "map location (server_parseEarthquakeData
     (ascii ''2025.01.07 09:10:11  39.1234   28.5678   5.0   -.-  2.1  -.-   AKHISAR (MANISA)   Ilksel'')) =
     [ascii ''AKHISAR (MANISA) Ilksel''] \<and>
   map solutionQuality (server_parseEarthquakeData
     (ascii ''2025.01.07 09:10:11  39.1234   28.5678   5.0   -.-  2.1  -.-   AKHISAR (MANISA)   Ilksel'')) =
     [ascii ''Ilksel''] \<and>
   map location (client_parseEarthquakeData
     (ascii ''2025.01.07 09:10:11  39.1234   28.5678   5.0   -.-  2.1  -.-   AKHISAR (MANISA)   Ilksel'')) =
     [ascii ''AKHISAR (MANISA)'']"
  by (simp add: string_eval number_eval client_eval server_eval Let_def cong: let_weak_cong)

text \<open>On a line that does not end in a revision marker after a parenthesis, the client
  leaves exactly the last token out of the location; the server, once the line starts with
  date and time, takes every token from the ninth on, the last one included.\<close>

lemma ordinary_line_location:
  assumes "parts = splitWhitespace (trim line)" and "10 \<le> length parts"
    and "\<not> (startsWith (last parts) (ascii ''REVIZE'') \<and>
            startsWith (parts ! (length parts - 2)) (ascii ''(''))"
  shows "\<exists>r. client_parseLine line = Some r \<and>
             location r = join (ascii '' '') (take (length parts - 9) (drop 8 parts)) \<and>
             solutionQuality r = last parts"
    and "dateTimeAtStart line \<Longrightarrow>
         \<exists>r. server_parseLine line = Some r \<and>
             location r = join (ascii '' '') (drop 8 parts) \<and>
             solutionQuality r = last parts"
proof -
  note tf = tokens_facts[OF assms(1,2)]
  have tq: "trim (parts ! (length parts - Suc 0)) = last parts" using tf(2) by simp
  have len: "\<not> length parts < 10" using assms(2) by simp
  have i1: "nat (int (length parts) - 1) = length parts - 1"
    and i2: "nat (int (length parts) - 2) = length parts - 2"
    using assms(2) by simp_all
  have e1: "int (length parts) - 2 + 1 = int (length parts) - 1"
    and e2: "int (length parts) - 1 + 1 = int (length parts)" by simp_all
  show "\<exists>r. client_parseLine line = Some r \<and>
             location r = join (ascii '' '') (take (length parts - 9) (drop 8 parts)) \<and>
             solutionQuality r = last parts"
    unfolding client_parseLine_def Let_def assms(1)[symmetric]
    using assms(3) len by (auto simp add: tf tq e1 slice_location(2)[OF assms(2)])
  show "\<exists>r. server_parseLine line = Some r \<and>
             location r = join (ascii '' '') (drop 8 parts) \<and>
             solutionQuality r = last parts" if "dateTimeAtStart line"
    unfolding server_parseLine_def Let_def assms(1)[symmetric]
    using assms(3) len that by (auto simp add: tf tq i1 i2 e2 slice_location(3)[OF assms(2)])
qed

text \<open>
  Claim C4: on a valid line whose last token starts with \<open>REVIZE\<close> and whose
  second-to-last token starts with \<open>(\<close>, the last two tokens are excluded from the
  location, the solution quality is the \<open>REVIZE\<close> token, and the parenthesized token
  appears in no field of the record.

  With at least ten tokens the client gives a record, the server gives the same record
  once the line starts with date and time, and every field of that record is given by
  the tokens 0 to 7, the tokens from 8 up to the last two, and the last token.
\<close>

theorem revised_line_drops_timestamp:
  assumes "parts = splitWhitespace (trim line)"
    and "10 \<le> length parts"
    and "startsWith (last parts) (ascii ''REVIZE'')"
    and "startsWith (parts ! (length parts - 2)) (ascii ''('')"
  shows "\<exists>r. client_parseLine line = Some r \<and>
             (dateTimeAtStart line \<longrightarrow> server_parseLine line = Some r) \<and>
             location r = join (ascii '' '') (take (length parts - 10) (drop 8 parts)) \<and>
             solutionQuality r = last parts \<and>
             date r = parts ! 0 \<and> time r = parts ! 1 \<and>
             latitude r = parseFloat (parts ! 2) \<and> longitude r = parseFloat (parts ! 3) \<and>
             depth r = parseFloat (parts ! 4) \<and> magnitudeMD r = magnitude (parts ! 5) \<and>
             magnitudeML r = magnitude (parts ! 6) \<and> magnitudeMw r = magnitude (parts ! 7) \<and>
             id' r = makeId (parts ! 0) (parts ! 1) (parseFloat (parts ! 2)) (parseFloat (parts ! 3))"
proof -
  note tf = tokens_facts[OF assms(1,2)]
  have tq: "trim (parts ! (length parts - Suc 0)) = last parts" using tf(2) by simp
  have len: "\<not> length parts < 10" using assms(2) by simp
  have i1: "nat (int (length parts) - 1) = length parts - 1"
    and i2: "nat (int (length parts) - 2) = length parts - 2"
    using assms(2) by simp_all
  have e1: "int (length parts) - 2 - 1 + 1 = int (length parts) - 2"
    and e2: "int (length parts) - 1 - 2 + 1 = int (length parts) - 2" by simp_all
  have c: "client_parseLine line =
      Some \<lparr> date = parts ! 0, time = parts ! 1, latitude = parseFloat (parts ! 2),
             longitude = parseFloat (parts ! 3), depth = parseFloat (parts ! 4),
             magnitudeMD = magnitude (parts ! 5), magnitudeML = magnitude (parts ! 6),
             magnitudeMw = magnitude (parts ! 7),
             location = join (ascii '' '') (take (length parts - 10) (drop 8 parts)),
             solutionQuality = last parts,
             id' = makeId (parts ! 0) (parts ! 1) (parseFloat (parts ! 2)) (parseFloat (parts ! 3)) \<rparr>"
    unfolding client_parseLine_def Let_def assms(1)[symmetric]
    using assms(3,4) len by (simp add: tf tq e1 slice_location(1)[OF assms(2)])
  have s: "server_parseLine line = client_parseLine line" if "dateTimeAtStart line"
    unfolding c server_parseLine_def Let_def assms(1)[symmetric]
    using assms(3,4) len that by (simp add: tf tq i1 i2 e2 slice_location(1)[OF assms(2)])
  show ?thesis using c s by simp
qed

text \<open>The example of the specification: a line that ends in
  \<open>PLACE NAME (14:00:00) REVIZE01\<close>.\<close>

theorem revised_line_example:
  "10 \<le> length (splitWhitespace (trim (ascii
      ''2024.03.15 14:23:11 38.4521 27.1234 7.3 -.- 3.2 -.- PLACE NAME (14:00:00) REVIZE01''))) \<and>
   (\<exists>r. client_parseLine (ascii
      ''2024.03.15 14:23:11 38.4521 27.1234 7.3 -.- 3.2 -.- PLACE NAME (14:00:00) REVIZE01'') = Some r \<and>
     server_parseLine (ascii
      ''2024.03.15 14:23:11 38.4521 27.1234 7.3 -.- 3.2 -.- PLACE NAME (14:00:00) REVIZE01'') = Some r \<and>
     location r = ascii ''PLACE NAME'' \<and> solutionQuality r = ascii ''REVIZE01'')"
proof -
  let ?line = "ascii ''2024.03.15 14:23:11 38.4521 27.1234 7.3 -.- 3.2 -.- PLACE NAME (14:00:00) REVIZE01''"
  let ?parts = "splitWhitespace (trim ?line)"
  have p: "?parts = map ascii [''2024.03.15'', ''14:23:11'', ''38.4521'', ''27.1234'', ''7.3'',
      ''-.-'', ''3.2'', ''-.-'', ''PLACE'', ''NAME'', ''(14:00:00)'', ''REVIZE01'']"
    by (simp add: string_eval)
  have h2: "10 \<le> length ?parts" by (simp add: p)
  have h3: "startsWith (last ?parts) (ascii ''REVIZE'')" by (simp add: p string_eval)
  have h4: "startsWith (?parts ! (length ?parts - 2)) (ascii ''('')" by (simp add: p string_eval)
  have g: "dateTimeAtStart ?line" by (simp add: string_eval)
  have l: "join (ascii '' '') (take (length ?parts - 10) (drop 8 ?parts)) = ascii ''PLACE NAME''"
    by (simp add: p string_eval)
  have q: "last ?parts = ascii ''REVIZE01''" by (simp add: p)
  from revised_line_drops_timestamp[OF refl h2 h3 h4] g l q h2 show ?thesis by auto
qed

section \<open>The date and time at the start of a line\<close>

text \<open>The server skips every line that does not start with a date and a time.\<close>

lemma server_skips_line_without_date_time:
  "\<not> dateTimeAtStart line \<Longrightarrow> server_parseLine line = None"
  by (simp add: server_parseLine_def)

text \<open>
  Claim C3: a line that does not begin with a date token followed by white space and a
  time token is never turned into a record, by the client-side parser as by the
  server-side one.

  The client has no such check: a candidate line of at least ten tokens becomes a record
  whatever its first two tokens are. Here the line starts with \<open>Son\<close>, and the client
  gives a record whose date is \<open>Son\<close> and whose time is \<open>deprem:\<close>.
\<close>

theorem client_accepts_line_without_date_time:
  "\<not> dateTimeAtStart
        (trim (ascii ''Son deprem: 2024.03.15 14:23:11 38.4521 27.1234 7.3 -.- 3.2 -.- IZMIR Ilksel'')) \<and>
   map (\<lambda>r. (date r, time r)) (client_parseEarthquakeData
     (ascii ''Son deprem: 2024.03.15 14:23:11 38.4521 27.1234 7.3 -.- 3.2 -.- IZMIR Ilksel'')) =
     [(ascii ''Son'', ascii ''deprem:'')]"
  by (simp add: string_eval number_eval client_eval Let_def cong: let_weak_cong)

section \<open>Tokens at the numeric positions\<close>

text \<open>\<open>parseFloat\<close> of a token that starts with neither a digit, a sign, a dot nor the
  \<open>I\<close> of \<open>Infinity\<close> is \<open>NaN\<close>.\<close>

lemma parseFloat_without_numeric_prefix:
  assumes "tok \<noteq> []" and "\<not> isWhiteSpace (hd tok)" and "\<not> isDigit (hd tok)"
    and "hd tok \<noteq> 43" and "hd tok \<noteq> 45" and "hd tok \<noteq> 46" and "hd tok \<noteq> 73"
  shows "parseFloat tok = NaN"
proof -
  obtain c cs where tok: "tok = c # cs" using assms(1) by (cases tok) auto
  have "\<not> startsWith tok (ascii ''Infinity'')"
    using assms(7) tok by (auto simp: startsWith_def ascii_def)
  then show ?thesis using assms tok
    by (simp add: parseFloat_def unsignedDecimal_def Let_def)
qed

text \<open>
  Claim C5, as the specification states it: a candidate line in which a numeric position
  holds a token that is not a well-formed decimal literal is skipped, and no record is
  emitted for it.

  The latitude token of this line is \<open>abc\<close>, and both parsers emit a record for it,
  with the latitude \<open>NaN\<close>.
\<close>

theorem malformed_latitude_not_skipped:
  "map latitude (client_parseEarthquakeData
     (ascii ''2024.03.15 14:23:11 abc 27.1234 7.3 -.- 3.2 -.- IZMIR KORFEZI Ilksel'')) = [NaN] \<and>
   map latitude (server_parseEarthquakeData
     (ascii ''2024.03.15 14:23:11 abc 27.1234 7.3 -.- 3.2 -.- IZMIR KORFEZI Ilksel'')) = [NaN]"
  by (simp add: string_eval number_eval client_eval server_eval Let_def cong: let_weak_cong)

text \<open>
  Claim C5, amended: a malformed numeric token neither aborts the batch nor makes the
  parser skip its line. Every line of at least ten tokens (on the server, one that also
  starts with date and time) gives a record whatever the tokens at the numeric positions
  are: latitude, longitude and depth are \<open>parseFloat\<close> of the tokens 2 to 4, each
  magnitude is absent for the sentinel and \<open>parseFloat\<close> of its token otherwise, and the
  lines before and after it in the batch give the records they give without it.
\<close>

theorem malformed_number_keeps_line:
  assumes "parts = splitWhitespace (trim line)" and "10 \<le> length parts"
  shows "(\<exists>r. client_parseLine line = Some r \<and>
              latitude r = parseFloat (parts ! 2) \<and> longitude r = parseFloat (parts ! 3) \<and>
              depth r = parseFloat (parts ! 4) \<and> magnitudeMD r = magnitude (parts ! 5) \<and>
              magnitudeML r = magnitude (parts ! 6) \<and> magnitudeMw r = magnitude (parts ! 7) \<and>
              pushEach client_parseLine (before @ line # rest) =
                pushEach client_parseLine before @ r # pushEach client_parseLine rest) \<and>
         (dateTimeAtStart line \<longrightarrow>
           (\<exists>r. server_parseLine line = Some r \<and>
              latitude r = parseFloat (parts ! 2) \<and> longitude r = parseFloat (parts ! 3) \<and>
              depth r = parseFloat (parts ! 4) \<and> magnitudeMD r = magnitude (parts ! 5) \<and>
              magnitudeML r = magnitude (parts ! 6) \<and> magnitudeMw r = magnitude (parts ! 7) \<and>
              pushEach server_parseLine (before @ line # rest) =
                pushEach server_parseLine before @ r # pushEach server_parseLine rest))"
proof -
  have len: "\<not> length parts < 10" using assms(2) by simp
  have batch: "pushEach f (before @ line # rest) = pushEach f before @ r # pushEach f rest"
    if "f line = Some r" for f :: "jsstring \<Rightarrow> Earthquake option" and r
    using that by (simp add: pushEach_append pushEach_Cons_Some)
  obtain rc where rc: "client_parseLine line = Some rc"
    and "latitude rc = parseFloat (parts ! 2)" "longitude rc = parseFloat (parts ! 3)"
    "depth rc = parseFloat (parts ! 4)" "magnitudeMD rc = magnitude (parts ! 5)"
    "magnitudeML rc = magnitude (parts ! 6)" "magnitudeMw rc = magnitude (parts ! 7)"
    unfolding client_parseLine_def Let_def assms(1)[symmetric] using len by simp
  moreover note batch[of client_parseLine rc, OF rc]
  moreover have "\<exists>r. server_parseLine line = Some r \<and>
              latitude r = parseFloat (parts ! 2) \<and> longitude r = parseFloat (parts ! 3) \<and>
              depth r = parseFloat (parts ! 4) \<and> magnitudeMD r = magnitude (parts ! 5) \<and>
              magnitudeML r = magnitude (parts ! 6) \<and> magnitudeMw r = magnitude (parts ! 7) \<and>
              pushEach server_parseLine (before @ line # rest) =
                pushEach server_parseLine before @ r # pushEach server_parseLine rest"
    if g: "dateTimeAtStart line"
  proof -
    obtain rs where rs: "server_parseLine line = Some rs"
      and "latitude rs = parseFloat (parts ! 2)" "longitude rs = parseFloat (parts ! 3)"
      "depth rs = parseFloat (parts ! 4)" "magnitudeMD rs = magnitude (parts ! 5)"
      "magnitudeML rs = magnitude (parts ! 6)" "magnitudeMw rs = magnitude (parts ! 7)"
      unfolding server_parseLine_def Let_def assms(1)[symmetric] using len g by simp
    with batch[of server_parseLine rs, OF rs] show ?thesis by blast
  qed
  ultimately show ?thesis by blast
qed

theorem malformed_number_example:
  "10 \<le> length (splitWhitespace (trim (ascii
      ''2024.03.15 14:23:11 abc 27.1234 7.3 -.- 3.2 -.- IZMIR KORFEZI Ilksel''))) \<and>
   dateTimeAtStart (ascii ''2024.03.15 14:23:11 abc 27.1234 7.3 -.- 3.2 -.- IZMIR KORFEZI Ilksel'') \<and>
   (\<exists>r. client_parseLine (ascii
      ''2024.03.15 14:23:11 abc 27.1234 7.3 -.- 3.2 -.- IZMIR KORFEZI Ilksel'') = Some r \<and>
        latitude r = NaN) \<and>
   (\<exists>r. server_parseLine (ascii
      ''2024.03.15 14:23:11 abc 27.1234 7.3 -.- 3.2 -.- IZMIR KORFEZI Ilksel'') = Some r \<and>
        latitude r = NaN)"
proof -
  let ?line = "ascii ''2024.03.15 14:23:11 abc 27.1234 7.3 -.- 3.2 -.- IZMIR KORFEZI Ilksel''"
  let ?parts = "splitWhitespace (trim ?line)"
  have p: "?parts = map ascii [''2024.03.15'', ''14:23:11'', ''abc'', ''27.1234'', ''7.3'',
      ''-.-'', ''3.2'', ''-.-'', ''IZMIR'', ''KORFEZI'', ''Ilksel'']"
    by (simp add: string_eval)
  have h: "10 \<le> length ?parts" by (simp add: p)
  have g: "dateTimeAtStart ?line" by (simp add: string_eval)
  have n: "parseFloat (?parts ! 2) = NaN"
    by (simp add: p string_eval number_eval Let_def cong: let_weak_cong)
  from malformed_number_keeps_line[OF refl h, of "[]" "[]"] g n h show ?thesis by auto
qed

section \<open>The report locator\<close>

text \<open>A line of a text from some position on is the end of a line of the whole text,
  and a line is a candidate as soon as its end is one.\<close>

lemma splitLines_nonempty: "splitLines s \<noteq> []"
  by (induction s) (auto elim: consHead.elims)

lemma suffix_lines:
  "l \<in> set (splitLines (drop n s)) \<Longrightarrow> \<exists>l'\<in>set (splitLines s). suffix l l'"
proof (induction s arbitrary: n l)
  case Nil
  then show ?case by simp
next
  case (Cons c s)
  show ?case
  proof (cases n)
    case 0
    with Cons.prems show ?thesis by auto
  next
    case (Suc m)
    with Cons.prems have "l \<in> set (splitLines (drop m s))" by simp
    then obtain l' where l': "l' \<in> set (splitLines s)" and s: "suffix l l'"
      using Cons.IH by blast
    obtain h t where ht: "splitLines s = h # t"
      using splitLines_nonempty[of s] by (cases "splitLines s") auto
    show ?thesis
    proof (cases "c = 10")
      case True
      with l' s show ?thesis by auto
    next
      case False
      from l' ht have "l' = h \<or> l' \<in> set t" by simp
      then show ?thesis
      proof
        assume "l' = h"
        then have "suffix l (c # h)" using s by (simp add: suffix_ConsI)
        then show ?thesis using False ht by auto
      next
        assume "l' \<in> set t"
        then show ?thesis using False ht s by auto
      qed
    qed
  qed
qed

lemma regexTest_append: "regexTest pat l \<Longrightarrow> regexTest pat (zs @ l)"
  by (induction zs) auto

lemma includesStr_append: "includesStr l sub \<Longrightarrow> includesStr (zs @ l) sub"
  by (induction zs) auto

lemma candidate_suffix: "suffix l l' \<Longrightarrow> candidate l \<Longrightarrow> candidate l'"
  by (auto simp: suffix_def candidate_def regexTest_append includesStr_append)

lemma no_candidate_after:
  assumes "\<forall>line\<in>set (splitLines rawText). \<not> candidate line"
  shows "candidateLines (drop n rawText) = []"
proof -
  have "\<not> candidate l" if "l \<in> set (splitLines (drop n rawText))" for l
    using suffix_lines[OF that] candidate_suffix assms by blast
  then show ?thesis by (simp add: candidateLines_def filter_empty_conv)
qed

lemma no_candidate_substring:
  assumes "\<forall>line\<in>set (splitLines rawText). \<not> candidate line"
  shows "candidateLines (substring rawText i) = []"
    and "candidateLines (substring (substring rawText i) j) = []"
  using no_candidate_after[OF assms] by (simp_all add: substring_def)

lemma tryAlternateHeaders_no_candidate:
  assumes "\<forall>line\<in>set (splitLines rawText). \<not> candidate line"
  shows "tryAlternateHeaders rawText hs = []"
  by (induction hs) (simp_all add: Let_def no_candidate_substring[OF assms] split: option.splits)

text \<open>So a text without a candidate line gives no record, on the server and on the
  client.\<close>

lemma no_candidate_line_no_record:
  assumes "\<forall>line\<in>set (splitLines rawText). \<not> candidate line"
  shows "server_parseEarthquakeData rawText = []" and "client_parseEarthquakeData rawText = []"
proof -
  have nf: "find candidate (splitLines rawText) = None"
    using assms by (simp add: find_None_iff)
  show "server_parseEarthquakeData rawText = []"
    by (simp add: server_parseEarthquakeData_def nf Let_def
        tryAlternateHeaders_no_candidate[OF assms] no_candidate_substring[OF assms]
        split: option.splits prod.splits)
  have "candidateLines rawText = []"
    using no_candidate_after[OF assms, of 0] by simp
  then show "client_parseEarthquakeData rawText = []"
    by (simp add: client_parseEarthquakeData_def)
qed

subsection \<open>The console and the result\<close>

text \<open>The second component of each function with a console is the function of the
  parser sections above.\<close>

lemma forEachLogged_foldl:
  "foldl (\<lambda>(console, acc) x.
            case f x of
              (ms, None) \<Rightarrow> (console @ ms, acc)
            | (ms, Some y) \<Rightarrow> (console @ ms, acc @ [y]))
         (c, a) xs =
   (c @ concat (map (\<lambda>x. fst (f x)) xs),
    foldl (\<lambda>acc x. case snd (f x) of None \<Rightarrow> acc | Some y \<Rightarrow> acc @ [y]) a xs)"
  by (induction xs arbitrary: c a) (auto split: prod.splits option.splits)

lemma forEachLogged_parts:
  "forEachLogged f xs = (concat (map (\<lambda>x. fst (f x)) xs), pushEach (\<lambda>x. snd (f x)) xs)"
  by (simp add: forEachLogged_def pushEach_def forEachLogged_foldl)

lemma client_parseLine_logged_result:
  "snd (client_parseLine_logged line) = client_parseLine line"
  by (simp add: client_parseLine_logged_def client_parseLine_def Let_def)

lemma server_parseLine_logged_result:
  "snd (server_parseLine_logged line) = server_parseLine line"
  by (simp add: server_parseLine_logged_def server_parseLine_def Let_def)

lemma client_logged_result:
  "snd (client_parseEarthquakeData_logged rawText) = client_parseEarthquakeData rawText"
  by (simp add: client_parseEarthquakeData_logged_def client_parseEarthquakeData_def
      logging_def Let_def forEachLogged_parts client_parseLine_logged_result)

lemma parseEarthquakeLines_logged_result:
  "snd (parseEarthquakeLines_logged dataSection) = parseEarthquakeLines dataSection"
  by (simp add: parseEarthquakeLines_logged_def parseEarthquakeLines_def
      logging_def Let_def forEachLogged_parts server_parseLine_logged_result)

lemma tryAlternateHeaders_logged_result:
  "snd (tryAlternateHeaders_logged rawText hs) = tryAlternateHeaders rawText hs"
  by (induction hs)
     (simp_all add: logging_def Let_def parseEarthquakeLines_logged_result split: option.splits)

lemma server_logged_result:
  "snd (server_parseEarthquakeData_logged rawText) = server_parseEarthquakeData rawText"
  by (simp add: server_parseEarthquakeData_logged_def server_parseEarthquakeData_def
      logging_def Let_def parseEarthquakeLines_logged_result tryAlternateHeaders_logged_result
      split: option.splits prod.splits)

subsection \<open>The header-anchored scan\<close>

text \<open>With no candidate line in the text, the loop over the alternate headers never
  leaves early: it reports every header that occurs and ends with the error message.\<close>

lemma tryAlternateHeaders_logged_no_candidate:
  assumes "\<forall>line\<in>set (splitLines rawText). \<not> candidate line"
  shows "tryAlternateHeaders_logged rawText hs =
           (concat (map (headerScanWithoutLines rawText) hs) @ [NoDataSection], [])"
  by (induction hs)
     (simp_all add: logging_def headerScanWithoutLines_def Let_def
        no_candidate_substring[OF assms] split: option.splits)

text \<open>
  Claim C6 says that on a raw text in which no whole line is a candidate, the report
  locator performs a header-anchored scan: it looks for a known header, goes from the
  first header match to the first date after it, applies the candidate predicate to the
  text from there to the end, and returns those lines. The claim is made of the client's
  and of the server's \<open>parseEarthquakeData\<close>.

  It does not hold of the client. On the text below, which has the header \<open>Tarih\<close> at
  position 0, a date after it and no candidate line, the client writes that it starts and
  that it found 0 lines, and returns: it looks for no header. The server, on the same
  text, reports the header, the date after it, 0 lines from that date on, and that it
  found no data section; no line is returned by either.
\<close>

theorem client_performs_no_header_scan:
  "filter candidate (splitLines (ascii ''Tarih      Saat'' @ [10] @
       ascii ''---------- --------'' @ [10] @ ascii ''2024.03.15 14:23:11 no sentinel'')) = [] \<and>
   indexOf (ascii ''Tarih      Saat'' @ [10] @
       ascii ''---------- --------'' @ [10] @ ascii ''2024.03.15 14:23:11 no sentinel'')
     (ascii ''Tarih'') = 0 \<and>
   client_parseEarthquakeData_logged (ascii ''Tarih      Saat'' @ [10] @
       ascii ''---------- --------'' @ [10] @ ascii ''2024.03.15 14:23:11 no sentinel'') =
     ([ClientParsing, ClientFoundLines 0], []) \<and>
   server_parseEarthquakeData_logged (ascii ''Tarih      Saat'' @ [10] @
       ascii ''---------- --------'' @ [10] @ ascii ''2024.03.15 14:23:11 no sentinel'') =
     ([StartingToParse,
       FoundAlternateHeader (ascii ''Tarih'') 0,
       FoundDatePattern (ascii ''2024.03.15''),
       FoundLinesUsingDatePattern 0,
       NoDataSection], [])"
  by (simp add: string_eval server_eval console_eval Let_def cong: let_weak_cong)

text \<open>
  Claim C6, amended: on a raw text in which no whole line is a candidate, no line is
  located and no record is returned, by the client or by the server.

  \<^item> The client stops after the direct scan: it writes that it starts and that it found 0
    lines, and looks for no header.
  \<^item> The server performs the header-anchored scan. Where the text does not contain the
    exact column header, it tries the alternate headers in their order; for each one that
    occurs it reports the header at its first position and, where a date follows that
    position, the first such date and the number of candidate lines from that date to the
    end of the text, which is 0 each time; having tried them all, it reports that it found
    no data section. Where the text contains the exact column header, it looks for the
    first run of dashes after it instead: it reports that there is no separator, or that
    it found 0 candidate lines after the separator and could extract none.

  The lines of a final part of the text are ends of lines of the whole text, and a line
  is a candidate as soon as its end is one: this is why each scan finds 0 lines.
\<close>

theorem locator_without_candidate_line:
  assumes "\<forall>line\<in>set (splitLines rawText). \<not> candidate line"
  shows "client_parseEarthquakeData_logged rawText = ([ClientParsing, ClientFoundLines 0], []) \<and>
         server_parseEarthquakeData_logged rawText =
           (StartingToParse #
            (if indexOf rawText headerText = - 1
             then concat (map (headerScanWithoutLines rawText) alternateHeaders) @
                  [NoDataSection]
             else
               (case dashMatch (substring rawText
                                  (indexOf rawText headerText + int (length headerText))) of
                  None \<Rightarrow> [NoSeparator]
                | Some s \<Rightarrow> [FoundLinesAfterSeparator 0, NoLinesAfterHeader])),
            [])"
proof -
  have nf: "find candidate (splitLines rawText) = None"
    using assms by (simp add: find_None_iff)
  have "candidateLines rawText = []"
    using no_candidate_after[OF assms, of 0] by simp
  then have client:
    "client_parseEarthquakeData_logged rawText = ([ClientParsing, ClientFoundLines 0], [])"
    by (simp add: client_parseEarthquakeData_logged_def logging_def)
  have server: "server_parseEarthquakeData_logged rawText =
           (StartingToParse #
            (if indexOf rawText headerText = - 1
             then concat (map (headerScanWithoutLines rawText) alternateHeaders) @
                  [NoDataSection]
             else
               (case dashMatch (substring rawText
                                  (indexOf rawText headerText + int (length headerText))) of
                  None \<Rightarrow> [NoSeparator]
                | Some s \<Rightarrow> [FoundLinesAfterSeparator 0, NoLinesAfterHeader])),
            [])"
    by (simp add: server_parseEarthquakeData_logged_def nf logging_def Let_def
        tryAlternateHeaders_logged_no_candidate[OF assms] no_candidate_substring[OF assms]
        split: option.splits prod.splits)
  show ?thesis using client server by (rule conjI)
qed

text \<open>A text with two of the alternate headers and a dated line without the sentinel:
  the server scans from \<open>Tarih\<close>, which comes first in its list, and then from \<open>Date\<close>.\<close>

theorem locator_without_candidate_line_example:
  "filter candidate (splitLines (ascii ''Date (Tarih)'' @ [10] @
       ascii ''2024.03.15 14:23:11 no sentinel'')) = [] \<and>
   client_parseEarthquakeData_logged (ascii ''Date (Tarih)'' @ [10] @
       ascii ''2024.03.15 14:23:11 no sentinel'') =
     ([ClientParsing, ClientFoundLines 0], []) \<and>
   server_parseEarthquakeData_logged (ascii ''Date (Tarih)'' @ [10] @
       ascii ''2024.03.15 14:23:11 no sentinel'') =
     ([StartingToParse,
       FoundAlternateHeader (ascii ''Tarih'') 6,
       FoundDatePattern (ascii ''2024.03.15''),
       FoundLinesUsingDatePattern 0,
       FoundAlternateHeader (ascii ''Date'') 0,
       FoundDatePattern (ascii ''2024.03.15''),
       FoundLinesUsingDatePattern 0,
       NoDataSection], [])"
proof -
  let ?raw = "ascii ''Date (Tarih)'' @ [10] @ ascii ''2024.03.15 14:23:11 no sentinel''"
  have f: "filter candidate (splitLines ?raw) = []"
    by (simp add: string_eval)
  then have h: "\<forall>line\<in>set (splitLines ?raw). \<not> candidate line"
    by (simp add: filter_empty_conv)
  have e: "indexOf ?raw headerText = - 1"
    by (simp add: string_eval headerText_def)
  have s: "concat (map (headerScanWithoutLines ?raw) alternateHeaders) =
     [FoundAlternateHeader (ascii ''Tarih'') 6,
      FoundDatePattern (ascii ''2024.03.15''),
      FoundLinesUsingDatePattern 0,
      FoundAlternateHeader (ascii ''Date'') 0,
      FoundDatePattern (ascii ''2024.03.15''),
      FoundLinesUsingDatePattern 0]"
    by (simp add: string_eval alternateHeaders_def headerScanWithoutLines_def Let_def
        cong: let_weak_cong)
  from locator_without_candidate_line[OF h] f e s show ?thesis by simp
qed

text \<open>A text with the exact column header, a separator and a dated line without the
  sentinel: the server goes by the separator, and looks for no date.\<close>

lemma exact_header_scan_example:
  "server_parseEarthquakeData_logged (headerText @ [10] @
       ascii ''---------- --------'' @ [10] @ ascii ''2024.03.15 14:23:11 no sentinel'') =
     ([StartingToParse, FoundLinesAfterSeparator 0, NoLinesAfterHeader], [])"
  by (simp add: string_eval server_eval console_eval Let_def cong: let_weak_cong)

section \<open>The acquisition chain\<close>

text \<open>Each function of the chain uses its own stage when that stage is usable, and goes
  on to the next one otherwise.\<close>

lemma fetchWithPublicProxy_cases:
  "fetchWithPublicProxy net fallback =
     ([CorsProxy], Inr (if usable net CorsProxy then stageRecords net CorsProxy else fallback))"
  by (auto simp: fetchWithPublicProxy_def await_def tryCatch_def after_def usable_def
      stageRecords_def Let_def split: sum.splits)

lemma fetchWithProxy_cases:
  "fetchWithProxy net fallback =
     (if usable net LocalProxy then ([LocalProxy], Inr (stageRecords net LocalProxy))
      else after LocalProxy (fetchWithPublicProxy net fallback))"
  by (auto simp: fetchWithProxy_def await_def tryCatch_def after_def usable_def
      stageRecords_def Let_def split: sum.splits)

lemma fetchEarthquakeData_cases:
  "fetchEarthquakeData net fallback =
     (if usable net Koeri then ([Koeri], Inr (stageRecords net Koeri))
      else after Koeri (fetchWithProxy net fallback))"
  by (auto simp: fetchEarthquakeData_def await_def tryCatch_def after_def usable_def
      stageRecords_def Let_def split: sum.splits)

text \<open>
  Claim C7: whatever the transports do at every stage (a rejected request, a response
  that is not \<open>ok\<close>, a body that cannot be read or that holds no record), the client-side
  \<open>fetchEarthquakeData\<close> resolves to a list of records and never rejects, and every
  failure path ends in the static fallback.

  The promise is always fulfilled, with the fallback or with the records of a usable
  stage; where no stage is usable, the three addresses have been requested in order and
  the result is the fallback.
\<close>

theorem fetchEarthquakeData_never_rejects:
  "(\<exists>rs. snd (fetchEarthquakeData net fallback) = Inr rs \<and>
         (rs = fallback \<or> (\<exists>e. usable net e \<and> rs = stageRecords net e))) \<and>
   (\<not> usable net Koeri \<and> \<not> usable net LocalProxy \<and> \<not> usable net CorsProxy \<longrightarrow>
      fetchEarthquakeData net fallback = ([Koeri, LocalProxy, CorsProxy], Inr fallback))"
  by (auto simp: fetchEarthquakeData_cases fetchWithProxy_cases fetchWithPublicProxy_cases after_def)

text \<open>A network on which every request is rejected.\<close>

theorem fetchEarthquakeData_never_rejects_example:
  "\<not> usable (\<lambda>e. Inl (Thrown (ascii ''Failed to fetch''))) Koeri \<and>
   fetchEarthquakeData (\<lambda>e. Inl (Thrown (ascii ''Failed to fetch''))) [] =
     ([Koeri, LocalProxy, CorsProxy], Inr [])"
  using fetchEarthquakeData_never_rejects[of "\<lambda>e. Inl (Thrown (ascii ''Failed to fetch''))" "[]"]
  by (simp add: usable_def)

text \<open>
  Claim C8: the result of a stage is used only if the transport succeeds and at least one
  record parses. If the direct fetch returns an \<open>ok\<close> response from which no record is
  parsed, the local proxy is requested next; the same condition at the local proxy makes
  the chain request the public proxy.

  The requests made are the first component of the result: after an empty \<open>ok\<close>
  response of the direct fetch the first two requests are the direct one and the local
  proxy, and after an empty \<open>ok\<close> response of the local proxy \<open>fetchWithProxy\<close> has
  requested the local and the public proxy. A function stops at its own stage exactly
  when that stage is usable, and then returns the records of that stage.
\<close>

theorem empty_response_falls_through:
  "(net Koeri = Inr response \<and> ok response \<and> text_body response = Inr text \<and>
      client_parseEarthquakeData text = [] \<longrightarrow>
        fetchEarthquakeData net fallback = after Koeri (fetchWithProxy net fallback) \<and>
        take 2 (fst (fetchEarthquakeData net fallback)) = [Koeri, LocalProxy]) \<and>
   (net LocalProxy = Inr response' \<and> ok response' \<and> text_body response' = Inr text' \<and>
      client_parseEarthquakeData text' = [] \<longrightarrow>
        fetchWithProxy net fallback = after LocalProxy (fetchWithPublicProxy net fallback) \<and>
        fst (fetchWithProxy net fallback) = [LocalProxy, CorsProxy]) \<and>
   (fst (fetchEarthquakeData net fallback) = [Koeri] \<longleftrightarrow> usable net Koeri) \<and>
   (fst (fetchWithProxy net fallback) = [LocalProxy] \<longleftrightarrow> usable net LocalProxy) \<and>
   (usable net Koeri \<longrightarrow> snd (fetchEarthquakeData net fallback) = Inr (stageRecords net Koeri)) \<and>
   (usable net LocalProxy \<longrightarrow> snd (fetchWithProxy net fallback) = Inr (stageRecords net LocalProxy))"
proof -
  have 1: "\<not> usable net Koeri"
    if "net Koeri = Inr response" "text_body response = Inr text" "client_parseEarthquakeData text = []"
    using that by (simp add: usable_def stageRecords_def)
  have 2: "\<not> usable net LocalProxy"
    if "net LocalProxy = Inr response'" "text_body response' = Inr text'" "client_parseEarthquakeData text' = []"
    using that by (simp add: usable_def stageRecords_def)
  have p: "fst (fetchWithPublicProxy net fallback) = [CorsProxy]"
    by (simp add: fetchWithPublicProxy_cases)
  have q: "take 1 (fst (fetchWithProxy net fallback)) = [LocalProxy]"
    by (simp add: fetchWithProxy_cases after_def)
  have q': "fst (fetchWithProxy net fallback) \<noteq> []"
    by (simp add: fetchWithProxy_cases after_def)
  show ?thesis
    using 1 2 p q q'
    by (auto simp: fetchEarthquakeData_cases fetchWithProxy_cases after_def)
qed

text \<open>A network that answers every request with status 200 and an empty body.\<close>

theorem empty_response_example:
  "client_parseEarthquakeData [] = [] \<and>
   fetchEarthquakeData (\<lambda>e. Inr \<lparr> ok = True, status = 200, text_body = Inr [] \<rparr>) [] =
     ([Koeri, LocalProxy, CorsProxy], Inr [])"
proof -
  let ?response = "\<lparr> ok = True, status = 200, text_body = Inr [] \<rparr>"
  let ?net = "\<lambda>e::endpoint. Inr ?response :: thrown + response"
  have e: "client_parseEarthquakeData [] = []"
    by (simp add: client_parseEarthquakeData_def candidateLines_def trim_def)
  have p: "fetchWithPublicProxy ?net [] = ([CorsProxy], Inr [])"
    by (simp add: fetchWithPublicProxy_cases usable_def stageRecords_def e)
  from empty_response_falls_through[of ?net ?response "[]" "[]" ?response "[]"] e p
  show ?thesis by (simp add: after_def)
qed

section \<open>No deduplication\<close>

text \<open>Splitting into lines what was joined with line feeds gives the lines back.\<close>

lemma set_consHead: "ls \<noteq> [] \<Longrightarrow> set (consHead c ls) = insert (c # hd ls) (set (tl ls))"
  by (cases ls) auto

lemma splitLines_no_lf: "l \<in> set (splitLines s) \<Longrightarrow> 10 \<notin> set l"
proof (induction s arbitrary: l)
  case Nil
  then show ?case by simp
next
  case (Cons c s)
  show ?case
  proof (cases "c = 10")
    case True
    with Cons show ?thesis by auto
  next
    case False
    obtain h t where ht: "splitLines s = h # t"
      using splitLines_nonempty[of s] by (cases "splitLines s") auto
    with Cons.prems False have "l = c # h \<or> l \<in> set t" by simp
    moreover have "10 \<notin> set h" by (rule Cons.IH) (simp add: ht)
    moreover have "10 \<notin> set l" if "l \<in> set t" by (rule Cons.IH) (simp add: ht that)
    ultimately show ?thesis using False by auto
  qed
qed

lemma splitLines_single: "10 \<notin> set l \<Longrightarrow> splitLines l = [l]"
  by (induction l) auto

lemma splitLines_append_lf: "10 \<notin> set l \<Longrightarrow> splitLines (l @ 10 # r) = l # splitLines r"
  by (induction l) auto

lemma splitLines_join:
  "ls \<noteq> [] \<Longrightarrow> \<forall>l\<in>set ls. 10 \<notin> set l \<Longrightarrow> splitLines (join [10] ls) = ls"
  by (induction "[10::nat]" ls rule: join.induct) (simp_all add: splitLines_single splitLines_append_lf)

lemma trim_idem: "trim (trim s) = trim s"
  using trim_ends[of s] by (intro trim_id) blast

lemma candidate_nonempty: "candidate l \<Longrightarrow> l \<noteq> []"
  by (auto simp: candidate_def datePattern_def)

lemma map_filter_duplicate:
  assumes "f l = Some r"
  shows "\<exists>as bs cs. List.map_filter f (xs @ l # ys @ l # zs) = as @ r # bs @ r # cs"
proof -
  have "List.map_filter f (xs @ l # ys @ l # zs) =
        List.map_filter f xs @ r # List.map_filter f ys @ r # List.map_filter f zs"
    using assms by (simp add: List.map_filter_def)
  then show ?thesis by blast
qed

lemma duplicate_indices:
  assumes "rs = as @ r # bs @ r # cs"
  shows "\<exists>i j. i < j \<and> j < length rs \<and> rs ! i = rs ! j"
proof -
  have "rs ! length as = r" using assms by simp
  moreover have "rs ! (length as + Suc (length bs)) = r"
    using assms by (simp add: nth_append nth_Cons')
  moreover have "length as < length as + Suc (length bs)" by simp
  moreover have "length as + Suc (length bs) < length rs" using assms by simp
  ultimately show ?thesis by metis
qed

lemma client_no_deduplication:
  "client_parseEarthquakeData rawText = List.map_filter client_parseLine (candidateLines rawText)"
  by (simp add: client_parseEarthquakeData_def Let_def pushEach_map_filter)

lemma candidateLines_no_lf: "l \<in> set (candidateLines s) \<Longrightarrow> 10 \<notin> set l"
  by (auto simp: candidateLines_def dest: splitLines_no_lf)

lemma trim_Nil_all_white: "trim s = [] \<Longrightarrow> \<forall>c\<in>set s. isWhiteSpace c"
proof -
  assume e: "trim s = []"
  define t where "t = dropWhile isWhiteSpace s"
  from e have "dropWhile isWhiteSpace (rev t) = []" by (simp add: trim_def t_def)
  then have w: "\<forall>c\<in>set t. isWhiteSpace c" by simp
  have "t = []"
  proof (rule ccontr)
    assume n: "t \<noteq> []"
    then have "\<not> isWhiteSpace (hd t)" unfolding t_def by (rule hd_dropWhile)
    moreover have "hd t \<in> set t" using n by simp
    ultimately show False using w by blast
  qed
  then show ?thesis by (simp add: t_def)
qed

lemma digit_not_white: "isDigit c \<Longrightarrow> \<not> isWhiteSpace c"
  by (auto simp: isDigit_def isWhiteSpace_def)

lemma regexTest_date_digit: "regexTest datePattern l \<Longrightarrow> \<exists>c\<in>set l. isDigit c"
  by (induction l) (auto simp: datePattern_def)

lemma candidate_not_blank: "candidate l \<Longrightarrow> trim l \<noteq> []"
  using regexTest_date_digit[of l] trim_Nil_all_white[of l] digit_not_white
  by (auto simp: candidate_def)

lemma server_direct_scan:
  assumes "l \<in> set (splitLines rawText)" and "candidate l"
  shows "server_parseEarthquakeData rawText =
         List.map_filter server_parseLine
           (filter (\<lambda>line. length line > 0) (map trim (candidateLines rawText)))"
proof -
  obtain l0 where f: "find candidate (splitLines rawText) = Some l0" and c0: "candidate l0"
    using assms
    by (cases "find candidate (splitLines rawText)") (auto simp: find_None_iff find_Some_iff)
  have ne0: "l0 \<noteq> []" using c0 by (rule candidate_nonempty)
  have "l \<in> set (candidateLines rawText)"
    using assms candidate_not_blank[OF assms(2)] by (simp add: candidateLines_def)
  then have cl: "candidateLines rawText \<noteq> []" by auto
  have "splitLines (join [10] (candidateLines rawText)) = candidateLines rawText"
    using cl candidateLines_no_lf by (intro splitLines_join) blast+
  then show ?thesis
    by (simp add: server_parseEarthquakeData_def f ne0 parseEarthquakeLines_def Let_def
        pushEach_map_filter)
qed

text \<open>
  Claim C10: the parser does not deduplicate. It emits one record per retained line, in
  line order, so that a raw text in which the same valid data line occurs twice gives a
  list with two entries, at different positions, that have the same id.

  Both parsers return the records of the lines they retain, in order. When a candidate
  line of at least ten tokens is at two positions of the text, two positions of the
  client's result hold the same id, and so do two positions of the server's result once
  the line starts with date and time.
\<close>

theorem duplicate_lines_give_duplicate_ids:
  assumes "splitLines rawText = xs @ l # ys @ l # zs"
    and "candidate l"
    and "10 \<le> length (splitWhitespace (trim l))"
  shows "client_parseEarthquakeData rawText =
           List.map_filter client_parseLine (candidateLines rawText) \<and>
         (\<exists>i j. i < j \<and> j < length (client_parseEarthquakeData rawText) \<and>
            id' (client_parseEarthquakeData rawText ! i) =
            id' (client_parseEarthquakeData rawText ! j)) \<and>
         server_parseEarthquakeData rawText =
           List.map_filter server_parseLine
             (filter (\<lambda>line. length line > 0) (map trim (candidateLines rawText))) \<and>
         (dateTimeAtStart (trim l) \<longrightarrow>
           (\<exists>i j. i < j \<and> j < length (server_parseEarthquakeData rawText) \<and>
              id' (server_parseEarthquakeData rawText ! i) =
              id' (server_parseEarthquakeData rawText ! j)))"
proof -
  have nb: "trim l \<noteq> []" using assms(2) by (rule candidate_not_blank)
  define keep where "keep = (\<lambda>ls. filter candidate (filter (\<lambda>line. length (trim line) > 0) ls))"
  have cl: "candidateLines rawText = keep xs @ l # keep ys @ l # keep zs"
    using assms(1,2) nb by (simp add: candidateLines_def keep_def)
  obtain rc where rc: "client_parseLine l = Some rc"
    using assms(3) by (auto simp: client_parseLine_def Let_def)
  have client: "client_parseEarthquakeData rawText =
           List.map_filter client_parseLine (candidateLines rawText)"
    by (rule client_no_deduplication)
  obtain as bs cs where "client_parseEarthquakeData rawText = as @ rc # bs @ rc # cs"
    unfolding client cl using map_filter_duplicate[of client_parseLine l rc, OF rc] by blast
  from duplicate_indices[OF this]
  have cdup: "\<exists>i j. i < j \<and> j < length (client_parseEarthquakeData rawText) \<and>
            id' (client_parseEarthquakeData rawText ! i) =
            id' (client_parseEarthquakeData rawText ! j)"
    by metis
  have "l \<in> set (splitLines rawText)" using assms(1) by simp
  then have server: "server_parseEarthquakeData rawText =
           List.map_filter server_parseLine
             (filter (\<lambda>line. length line > 0) (map trim (candidateLines rawText)))"
    using assms(2) by (rule server_direct_scan)
  have sdup: "\<exists>i j. i < j \<and> j < length (server_parseEarthquakeData rawText) \<and>
              id' (server_parseEarthquakeData rawText ! i) =
              id' (server_parseEarthquakeData rawText ! j)"
    if g: "dateTimeAtStart (trim l)"
  proof -
    define keep' where "keep' = (\<lambda>ls. filter (\<lambda>line. length line > 0) (map trim (keep ls)))"
    have dl: "filter (\<lambda>line. length line > 0) (map trim (candidateLines rawText)) =
              keep' xs @ trim l # keep' ys @ trim l # keep' zs"
      using nb by (simp add: cl keep'_def)
    obtain rs where rs: "server_parseLine (trim l) = Some rs"
      using assms(3) g by (auto simp: server_parseLine_def Let_def trim_idem)
    obtain as bs cs where "server_parseEarthquakeData rawText = as @ rs # bs @ rs # cs"
      unfolding server dl using map_filter_duplicate[of server_parseLine "trim l" rs, OF rs] by blast
    from duplicate_indices[OF this] show ?thesis by metis
  qed
  show ?thesis using client cdup server sdup by blast
qed

text \<open>The example line of the specification, twice.\<close>

theorem duplicate_lines_example:
  "map id' (client_parseEarthquakeData
     (ascii ''2024.03.15 14:23:11 38.4521 27.1234 7.3 -.- 3.2 -.- SOME PLACE NAME  C'' @ 10 #
      ascii ''2024.03.15 14:23:11 38.4521 27.1234 7.3 -.- 3.2 -.- SOME PLACE NAME  C'')) =
     [ascii ''2024.03.15_14:23:11_38.4521_27.1234'', ascii ''2024.03.15_14:23:11_38.4521_27.1234''] \<and>
   (\<exists>i j. i < j \<and>
      j < length (server_parseEarthquakeData
        (ascii ''2024.03.15 14:23:11 38.4521 27.1234 7.3 -.- 3.2 -.- SOME PLACE NAME  C'' @ 10 #
         ascii ''2024.03.15 14:23:11 38.4521 27.1234 7.3 -.- 3.2 -.- SOME PLACE NAME  C'')) \<and>
      id' (server_parseEarthquakeData
        (ascii ''2024.03.15 14:23:11 38.4521 27.1234 7.3 -.- 3.2 -.- SOME PLACE NAME  C'' @ 10 #
         ascii ''2024.03.15 14:23:11 38.4521 27.1234 7.3 -.- 3.2 -.- SOME PLACE NAME  C'') ! i) =
      id' (server_parseEarthquakeData
        (ascii ''2024.03.15 14:23:11 38.4521 27.1234 7.3 -.- 3.2 -.- SOME PLACE NAME  C'' @ 10 #
         ascii ''2024.03.15 14:23:11 38.4521 27.1234 7.3 -.- 3.2 -.- SOME PLACE NAME  C'') ! j))"
proof -
  let ?l = "ascii ''2024.03.15 14:23:11 38.4521 27.1234 7.3 -.- 3.2 -.- SOME PLACE NAME  C''"
  have lf: "10 \<notin> set ?l" by (simp add: ascii_def)
  have h1: "splitLines (?l @ 10 # ?l) = [] @ ?l # [] @ ?l # []"
    using lf by (simp add: splitLines_append_lf splitLines_single)
  have h2: "candidate ?l" by (simp add: string_eval)
  have h3: "10 \<le> length (splitWhitespace (trim ?l))" by (simp add: string_eval)
  have g: "dateTimeAtStart (trim ?l)" by (simp add: string_eval)
  have c: "client_parseLine ?l = Some \<lparr> date = ascii ''2024.03.15'', time = ascii ''14:23:11'',
      latitude = Finite 384521 (- 4), longitude = Finite 271234 (- 4),
      depth = Finite 73 (- 1), magnitudeMD = None, magnitudeML = Some (Finite 32 (- 1)),
      magnitudeMw = None, location = ascii ''SOME PLACE NAME'',
      solutionQuality = ascii ''C'',
      id' = ascii ''2024.03.15_14:23:11_38.4521_27.1234'' \<rparr>"
    by (simp add: string_eval number_eval client_eval Let_def cong: let_weak_cong)
  have k: "candidateLines (?l @ 10 # ?l) = [?l, ?l]"
    using h2 candidate_not_blank[OF h2] by (simp add: candidateLines_def h1)
  note dup = duplicate_lines_give_duplicate_ids[OF h1 h2 h3]
  from dup have "client_parseEarthquakeData (?l @ 10 # ?l) =
      List.map_filter client_parseLine (candidateLines (?l @ 10 # ?l))"
    by (rule conjunct1)
  then have ids: "map id' (client_parseEarthquakeData (?l @ 10 # ?l)) =
      [ascii ''2024.03.15_14:23:11_38.4521_27.1234'', ascii ''2024.03.15_14:23:11_38.4521_27.1234'']"
    by (simp add: k c List.map_filter_def)
  from dup g have "\<exists>i j. i < j \<and> j < length (server_parseEarthquakeData (?l @ 10 # ?l)) \<and>
      id' (server_parseEarthquakeData (?l @ 10 # ?l) ! i) =
      id' (server_parseEarthquakeData (?l @ 10 # ?l) ! j)"
    by blast
  with ids show ?thesis by (rule conjI)
qed

section \<open>The derived id\<close>

text \<open>Both parsers compose the id from the date, the time, the latitude and the
  longitude of the record, and from nothing else.\<close>

lemma id_of_key_fields:
  "client_parseLine line = Some r \<Longrightarrow>
     id' r = makeId (date r) (time r) (latitude r) (longitude r)"
  "server_parseLine line = Some r \<Longrightarrow>
     id' r = makeId (date r) (time r) (latitude r) (longitude r)"
  by (auto simp: client_parseLine_def server_parseLine_def Let_def split: if_splits)

text \<open>On the server the date of a record is the ten code units at the start of its
  line: the first token of a line that starts with a date and white space.\<close>

lemma splitWs_first:
  "splitWs s False cur \<noteq> [] \<and>
   hd (splitWs s False cur) = cur @ takeWhile (\<lambda>c. \<not> isWhiteSpace c) s"
  by (induction s arbitrary: cur) auto

lemma trim_decompose:
  "\<exists>z. dropWhile isWhiteSpace s = trim s @ z \<and> (\<forall>c\<in>set z. isWhiteSpace c)"
proof -
  define t where "t = dropWhile isWhiteSpace s"
  have "t = rev (takeWhile isWhiteSpace (rev t) @ dropWhile isWhiteSpace (rev t))"
    by (simp only: takeWhile_dropWhile_id rev_rev_ident)
  also have "\<dots> = rev (dropWhile isWhiteSpace (rev t)) @ rev (takeWhile isWhiteSpace (rev t))"
    by (simp only: rev_append)
  finally have "t = trim s @ rev (takeWhile isWhiteSpace (rev t))"
    by (simp only: trim_def t_def)
  moreover have "\<forall>c\<in>set (rev (takeWhile isWhiteSpace (rev t))). isWhiteSpace c"
    by (auto dest: set_takeWhileD)
  ultimately show ?thesis unfolding t_def by blast
qed

lemma first_token_of_trimmed:
  "takeWhile (\<lambda>c. \<not> isWhiteSpace c) (trim s) =
   takeWhile (\<lambda>c. \<not> isWhiteSpace c) (dropWhile isWhiteSpace s)"
proof -
  obtain z where d: "dropWhile isWhiteSpace s = trim s @ z" and z: "\<forall>c\<in>set z. isWhiteSpace c"
    using trim_decompose by blast
  have tz: "takeWhile (\<lambda>c. \<not> isWhiteSpace c) z = []"
    using z by (cases z) auto
  show ?thesis
  proof (cases "\<exists>c\<in>set (trim s). isWhiteSpace c")
    case True
    then obtain c where "c \<in> set (trim s)" and "\<not> \<not> isWhiteSpace c" by auto
    then have "takeWhile (\<lambda>c. \<not> isWhiteSpace c) (trim s @ z) =
        takeWhile (\<lambda>c. \<not> isWhiteSpace c) (trim s)"
      by (rule takeWhile_append1)
    then show ?thesis by (simp only: d)
  next
    case False
    then have "\<And>c. c \<in> set (trim s) \<Longrightarrow> \<not> isWhiteSpace c" by blast
    then have "takeWhile (\<lambda>c. \<not> isWhiteSpace c) (trim s @ z) =
        trim s @ takeWhile (\<lambda>c. \<not> isWhiteSpace c) z"
      by (rule takeWhile_append2)
    moreover have "takeWhile (\<lambda>c. \<not> isWhiteSpace c) (trim s) = trim s"
      using False by simp
    ultimately show ?thesis by (simp only: d tz append_Nil2)
  qed
qed

lemma matchPrefix_no_white:
  "matchPrefix pat l \<Longrightarrow> \<forall>p\<in>set pat. \<forall>c. classOk p c \<longrightarrow> \<not> isWhiteSpace c \<Longrightarrow>
   length pat \<le> length l \<and> (\<forall>c\<in>set (take (length pat) l). \<not> isWhiteSpace c)"
  by (induction pat l rule: matchPrefix.induct) auto

lemma date_class_no_white: "\<forall>p\<in>set datePattern. \<forall>c. classOk p c \<longrightarrow> \<not> isWhiteSpace c"
  by (auto simp: datePattern_def isDigit_def isWhiteSpace_def)

lemma server_date_length:
  assumes "server_parseLine line = Some r"
  shows "length (date r) = 10"
proof -
  from assms have g: "dateTimeAtStart line"
    by (auto simp: server_parseLine_def split: if_splits)
  from assms have d: "date r = splitWhitespace (trim line) ! 0"
    by (auto simp: server_parseLine_def Let_def split: if_splits)
  from g have m: "matchPrefix datePattern line" and ne: "drop 10 line \<noteq> []"
    and w: "isWhiteSpace (hd (drop 10 line))"
    by (auto simp: dateTimeAtStart_def Let_def)
  have dl: "length datePattern = 10" by (simp add: datePattern_def)
  from matchPrefix_no_white[OF m date_class_no_white]
  have len: "10 \<le> length line" and nw: "\<forall>c\<in>set (take 10 line). \<not> isWhiteSpace c"
    unfolding dl by blast+
  have "take 10 line \<noteq> []" using len by auto
  then have "\<not> isWhiteSpace (hd line)" using nw by (cases line) auto
  then have dw: "dropWhile isWhiteSpace line = line" by (cases line) auto
  have "takeWhile (\<lambda>c. \<not> isWhiteSpace c) (take 10 line @ drop 10 line) = take 10 line"
    using nw ne w by (cases "drop 10 line") (auto simp del: append_take_drop_id)
  then have tw: "takeWhile (\<lambda>c. \<not> isWhiteSpace c) line = take 10 line" by simp
  have sp: "splitWs (trim line) False [] \<noteq> []"
    and h: "hd (splitWs (trim line) False []) = takeWhile (\<lambda>c. \<not> isWhiteSpace c) (trim line)"
    using splitWs_first[of "trim line" "[]"] by simp_all
  have "splitWhitespace (trim line) ! 0 = hd (splitWs (trim line) False [])"
    by (simp only: splitWhitespace_def hd_conv_nth[OF sp])
  also have "\<dots> = takeWhile (\<lambda>c. \<not> isWhiteSpace c) (trim line)" by (rule h)
  also have "\<dots> = take 10 line" by (simp add: first_token_of_trimmed dw tw)
  finally show ?thesis using d len by simp
qed

text \<open>A number prints without \<open>_\<close>, so that the id can be taken apart again once the
  length of the date is known.\<close>

lemma digitsOf_digits: "\<forall>c\<in>set (digitsOf n). 48 \<le> c \<and> c \<le> 57"
proof (induction n rule: digitsOf.induct)
  case (1 n)
  show ?case
  proof (cases "n < 10")
    case True
    then show ?thesis by (subst digitsOf.simps) simp
  next
    case False
    have "n mod 10 < 10" by simp
    then have "48 + n mod 10 \<le> 57" by linarith
    with 1[OF False] False show ?thesis by (subst digitsOf.simps) auto
  qed
qed

lemma numToString_no_underscore: "95 \<notin> set (numToString x)"
proof -
  have d: "95 \<notin> set (digitsOf n)" for n using digitsOf_digits[of n] by fastforce
  have p: "95 \<notin> set (positiveToString m e)" for m e
    using d by (auto simp: positiveToString_def Let_def dest: in_set_takeD in_set_dropD)
  show ?thesis using p by (cases x) (auto simp: ascii_def)
qed

lemma split_at_separator:
  assumes "x @ c # y = x' @ c # y'" and "c \<notin> set x" and "c \<notin> set x'"
  shows "x = x' \<and> y = y'"
proof -
  have "takeWhile (\<lambda>d. d \<noteq> c) (x @ c # y) = x"
    using assms(2) by (subst takeWhile_append2) auto
  moreover have "takeWhile (\<lambda>d. d \<noteq> c) (x' @ c # y') = x'"
    using assms(3) by (subst takeWhile_append2) auto
  ultimately have "x = x'" using assms(1) by simp
  with assms(1) show ?thesis by simp
qed

text \<open>Printing is injective on the numbers that \<open>parseFloat\<close> gives: the digits of
  the mantissa can be read back from each of the four notations, and so can the position
  of the decimal point.\<close>

lemma digitsValue_snoc: "digitsValue (ds @ [c]) = 10 * digitsValue ds + (c - 48)"
  by (simp add: digitsValue_def)

lemma digitsOf_small: "n < 10 \<Longrightarrow> digitsOf n = [48 + n]"
  by (subst digitsOf.simps) simp

lemma digitsOf_large: "\<not> n < 10 \<Longrightarrow> digitsOf n = digitsOf (n div 10) @ [48 + n mod 10]"
  by (subst digitsOf.simps) simp

lemma digitsOf_nonempty: "digitsOf n \<noteq> []"
  by (cases "n < 10") (simp_all add: digitsOf_small digitsOf_large)

lemma digitsOf_last: "last (digitsOf n) = 48 + n mod 10"
  by (cases "n < 10") (simp_all add: digitsOf_small digitsOf_large)

lemma digitsValue_digitsOf: "digitsValue (digitsOf n) = n"
proof (induction n rule: digitsOf.induct)
  case (1 n)
  show ?case
  proof (cases "n < 10")
    case True
    then show ?thesis by (simp add: digitsOf_small digitsValue_def)
  next
    case False
    with 1 show ?thesis by (simp add: digitsOf_large digitsValue_snoc)
  qed
qed

lemma digitsOf_hd: "0 < n \<Longrightarrow> hd (digitsOf n) \<noteq> 48"
proof (induction n rule: digitsOf.induct)
  case (1 n)
  show ?case
  proof (cases "n < 10")
    case True
    with 1(2) show ?thesis by (simp add: digitsOf_small)
  next
    case False
    then have "0 < n div 10" by simp
    with 1(1)[OF False] have "hd (digitsOf (n div 10)) \<noteq> 48" by simp
    then show ?thesis using False digitsOf_nonempty[of "n div 10"] by (simp add: digitsOf_large)
  qed
qed

lemma digitsOf_inj: "digitsOf m = digitsOf n \<Longrightarrow> m = n"
  by (metis digitsValue_digitsOf)


lemma strip_zeros_right:
  assumes "s @ replicate j 48 = s' @ replicate j' (48::nat)"
    and "s \<noteq> []" "last s \<noteq> 48" "s' \<noteq> []" "last s' \<noteq> 48"
  shows "s = s' \<and> j = j'"
proof -
  have r: "dropWhile (\<lambda>c. c = 48) (rev (t @ replicate i 48)) = rev t"
    if "t \<noteq> []" "last t \<noteq> (48::nat)" for t i
  proof -
    have "rev (t @ replicate i 48) = replicate i 48 @ rev t" by simp
    moreover have "dropWhile (\<lambda>c. c = 48) (replicate i 48 @ rev t) = dropWhile (\<lambda>c. c = 48) (rev t)"
      by (simp add: dropWhile_append)
    moreover have "dropWhile (\<lambda>c. c = 48) (rev t) = rev t"
      using that by (cases "rev t") (auto simp: last_rev hd_rev)
    ultimately show ?thesis by simp
  qed
  have "rev s = rev s'" using r[OF assms(2,3), of j] r[OF assms(4,5), of j'] assms(1) by simp
  then have "s = s'" by simp
  moreover from this assms(1) have "length (replicate j (48::nat)) = length (replicate j' (48::nat))"
    by simp
  ultimately show ?thesis by simp
qed

lemma strip_zeros_left:
  assumes "replicate a 48 @ s = replicate a' 48 @ s'"
    and "s \<noteq> []" "hd s \<noteq> (48::nat)" "s' \<noteq> []" "hd s' \<noteq> 48"
  shows "s = s' \<and> a = a'"
proof -
  have r: "dropWhile (\<lambda>c. c = 48) (replicate i 48 @ t) = t" if "t \<noteq> []" "hd t \<noteq> (48::nat)" for t i
    using that by (cases t) (auto simp: dropWhile_append)
  have "s = s'" using r[OF assms(2,3), of a] r[OF assms(4,5), of a'] assms(1) by simp
  moreover from this assms(1) have "length (replicate a (48::nat)) = length (replicate a' (48::nat))"
    by simp
  ultimately show ?thesis by simp
qed

lemma mantissa_inj:
  assumes "(if length s = 1 then s else hd s # 46 # tl s) =
           (if length s' = 1 then s' else hd s' # 46 # tl s')"
    and "s \<noteq> []" "s' \<noteq> []" "46 \<notin> set s" "46 \<notin> set s'"
  shows "s = (s' :: nat list)"
proof (cases "length s = 1")
  case True
  show ?thesis
  proof (cases "length s' = 1")
    case True
    with \<open>length s = 1\<close> assms(1) show ?thesis by simp
  next
    case False
    with True assms(1) have "s = hd s' # 46 # tl s'" by simp
    with assms(4) show ?thesis by auto
  qed
next
  case False
  show ?thesis
  proof (cases "length s' = 1")
    case True
    with False assms(1) have "s' = hd s # 46 # tl s" by simp
    with assms(5) show ?thesis by auto
  next
    case F: False
    with False assms(1) have "hd s = hd s'" "tl s = tl s'" by simp_all
    with assms(2,3) show ?thesis by (metis list.collapse)
  qed
qed


lemma digitsOf_props:
  assumes "0 < m" and "m mod 10 \<noteq> 0"
  shows "digitsOf m \<noteq> []" and "hd (digitsOf m) \<noteq> 48" and "last (digitsOf m) \<noteq> 48"
    and "46 \<notin> set (digitsOf m)" and "101 \<notin> set (digitsOf m)"
proof -
  show "digitsOf m \<noteq> []" by (rule digitsOf_nonempty)
  show "hd (digitsOf m) \<noteq> 48" using assms(1) by (rule digitsOf_hd)
  show "last (digitsOf m) \<noteq> 48" using assms(2) by (simp add: digitsOf_last)
  show "46 \<notin> set (digitsOf m)" using digitsOf_digits[of m] by fastforce
  show "101 \<notin> set (digitsOf m)" using digitsOf_digits[of m] by fastforce
qed

lemma positiveToString_format:
  fixes m :: nat and e :: int
  assumes "0 < m" and "m mod 10 \<noteq> 0"
  defines "s \<equiv> digitsOf m"
    and "n \<equiv> int (length (digitsOf m)) + e"
    and "str \<equiv> positiveToString m e"
  shows "int (length s) \<le> n \<and> n \<le> 21 \<Longrightarrow> str = s @ replicate (nat (n - int (length s))) 48"
    and "0 < n \<and> n < int (length s) \<and> n \<le> 21 \<Longrightarrow> str = take (nat n) s @ 46 # drop (nat n) s"
    and "- 6 < n \<and> n \<le> 0 \<Longrightarrow> str = 48 # 46 # replicate (nat (- n)) 48 @ s"
    and "21 < n \<or> n \<le> - 6 \<Longrightarrow>
           str = (if length s = 1 then s else hd s # 46 # tl s) @
                 101 # (if n - 1 < 0 then 45 else 43) # digitsOf (nat \<bar>n - 1\<bar>)"
    and "(int (length s) \<le> n \<and> n \<le> 21) = (101 \<notin> set str \<and> 46 \<notin> set str)"
    and "(0 < n \<and> n < int (length s) \<and> n \<le> 21) =
           (101 \<notin> set str \<and> 46 \<in> set str \<and> hd str \<noteq> 48)"
    and "(- 6 < n \<and> n \<le> 0) = (101 \<notin> set str \<and> 46 \<in> set str \<and> hd str = 48)"
    and "(21 < n \<or> n \<le> - 6) = (101 \<in> set str)"
proof -
  note p = digitsOf_props[OF assms(1,2), folded s_def]
  have k: "1 \<le> int (length s)" using p(1) by (cases s) auto
  have A: "str = s @ replicate (nat (n - int (length s))) 48"
    if "int (length s) \<le> n \<and> n \<le> 21"
    using that by (simp add: str_def positiveToString_def Let_def s_def n_def)
  have B: "str = take (nat n) s @ 46 # drop (nat n) s"
    if "0 < n \<and> n < int (length s) \<and> n \<le> 21"
    using that by (simp add: str_def positiveToString_def Let_def s_def n_def)
  have C: "str = 48 # 46 # replicate (nat (- n)) 48 @ s" if "- 6 < n \<and> n \<le> 0"
    using that k by (simp add: str_def positiveToString_def Let_def s_def n_def)
  have t1: "take 1 s = [hd s]" and d1: "drop 1 s = tl s"
    using p(1) by (cases s; simp)+
  have D: "str = (if length s = 1 then s else hd s # 46 # tl s) @
                 101 # (if n - 1 < 0 then 45 else 43) # digitsOf (nat \<bar>n - 1\<bar>)"
    if "21 < n \<or> n \<le> - 6"
    using that k t1 d1 by (auto simp add: str_def positiveToString_def Let_def s_def n_def)
  show "int (length s) \<le> n \<and> n \<le> 21 \<Longrightarrow> str = s @ replicate (nat (n - int (length s))) 48"
    by (rule A)
  show "0 < n \<and> n < int (length s) \<and> n \<le> 21 \<Longrightarrow> str = take (nat n) s @ 46 # drop (nat n) s"
    by (rule B)
  show "- 6 < n \<and> n \<le> 0 \<Longrightarrow> str = 48 # 46 # replicate (nat (- n)) 48 @ s"
    by (rule C)
  show "21 < n \<or> n \<le> - 6 \<Longrightarrow>
           str = (if length s = 1 then s else hd s # 46 # tl s) @
                 101 # (if n - 1 < 0 then 45 else 43) # digitsOf (nat \<bar>n - 1\<bar>)"
    by (rule D)
  have fA: "101 \<notin> set str \<and> 46 \<notin> set str" if "int (length s) \<le> n \<and> n \<le> 21"
    using A[OF that] p(4,5) by auto
  have fB: "101 \<notin> set str \<and> 46 \<in> set str \<and> hd str \<noteq> 48"
    if "0 < n \<and> n < int (length s) \<and> n \<le> 21"
  proof -
    have "take (nat n) s \<noteq> []" using that p(1) by auto
    then have "hd str = hd s" using B[OF that] by (cases s) (auto simp: hd_append)
    then show ?thesis using B[OF that] p(2,4,5) by (auto dest: in_set_takeD in_set_dropD)
  qed
  have fC: "101 \<notin> set str \<and> 46 \<in> set str \<and> hd str = 48" if "- 6 < n \<and> n \<le> 0"
    using C[OF that] p(5) by auto
  have fD: "101 \<in> set str" if "21 < n \<or> n \<le> - 6"
    using D[OF that] by auto
  consider "int (length s) \<le> n \<and> n \<le> 21" | "0 < n \<and> n < int (length s) \<and> n \<le> 21"
    | "- 6 < n \<and> n \<le> 0" | "21 < n \<or> n \<le> - 6"
    by linarith
  then show "(int (length s) \<le> n \<and> n \<le> 21) = (101 \<notin> set str \<and> 46 \<notin> set str)"
    and "(0 < n \<and> n < int (length s) \<and> n \<le> 21) =
           (101 \<notin> set str \<and> 46 \<in> set str \<and> hd str \<noteq> 48)"
    and "(- 6 < n \<and> n \<le> 0) = (101 \<notin> set str \<and> 46 \<in> set str \<and> hd str = 48)"
    and "(21 < n \<or> n \<le> - 6) = (101 \<in> set str)"
    using fA fB fC fD k by (cases; linarith | blast)+
qed


lemma positiveToString_inj:
  fixes m m' :: nat and e e' :: int
  assumes m: "0 < m" "m mod 10 \<noteq> 0" and m': "0 < m'" "m' mod 10 \<noteq> 0"
    and eq: "positiveToString m e = positiveToString m' e'"
  shows "m = m' \<and> e = e'"
proof -
  define s n where "s = digitsOf m" and "n = int (length (digitsOf m)) + e"
  define s' n' where "s' = digitsOf m'" and "n' = int (length (digitsOf m')) + e'"
  define str where "str = positiveToString m e"
  have str': "str = positiveToString m' e'" using eq by (simp add: str_def)
  note f = positiveToString_format[OF m, of e, folded s_def n_def str_def]
  note f' = positiveToString_format[OF m', of e', folded s'_def n'_def str']
  note p = digitsOf_props[OF m, folded s_def]
  note p' = digitsOf_props[OF m', folded s'_def]
  have same: "m = m' \<and> e = e'" if "s = s'" "n = n'"
  proof -
    from that(1) have "m = m'" unfolding s_def s'_def by (rule digitsOf_inj)
    with that(2) show ?thesis by (simp add: n_def n'_def)
  qed
  consider (A) "int (length s) \<le> n \<and> n \<le> 21" | (B) "0 < n \<and> n < int (length s) \<and> n \<le> 21"
    | (C) "- 6 < n \<and> n \<le> 0" | (D) "21 < n \<or> n \<le> - 6"
    by linarith
  then show ?thesis
  proof cases
    case A
    then have A': "int (length s') \<le> n' \<and> n' \<le> 21" using f(5) f'(5) by simp
    from f(1)[OF A] f'(1)[OF A']
    have "s @ replicate (nat (n - int (length s))) 48 = s' @ replicate (nat (n' - int (length s'))) 48"
      by simp
    from strip_zeros_right[OF this p(1,3) p'(1,3)]
    have "s = s'" and "nat (n - int (length s)) = nat (n' - int (length s'))" by blast+
    then have "int (nat (n - int (length s))) = int (nat (n' - int (length s')))" by simp
    with A A' have "n - int (length s) = n' - int (length s')" by simp
    with \<open>s = s'\<close> have "n = n'" by simp
    with \<open>s = s'\<close> show ?thesis by (rule same)
  next
    case B
    then have B': "0 < n' \<and> n' < int (length s') \<and> n' \<le> 21" using f(6) f'(6) by simp
    from f(2)[OF B] f'(2)[OF B']
    have e: "take (nat n) s @ 46 # drop (nat n) s = take (nat n') s' @ 46 # drop (nat n') s'"
      by simp
    have "46 \<notin> set (take (nat n) s)" "46 \<notin> set (take (nat n') s')"
      using p(4) p'(4) by (auto dest: in_set_takeD)
    from split_at_separator[OF e this]
    have t: "take (nat n) s = take (nat n') s'" and d: "drop (nat n) s = drop (nat n') s'"
      by simp_all
    have "s = take (nat n) s @ drop (nat n) s" by simp
    also have "\<dots> = take (nat n') s' @ drop (nat n') s'" by (simp only: t d)
    finally have "s = s'" by simp
    from t have "length (take (nat n) s) = length (take (nat n') s')" by simp
    with B B' have "n = n'" by auto
    with \<open>s = s'\<close> show ?thesis by (rule same)
  next
    case C
    then have C': "- 6 < n' \<and> n' \<le> 0" using f(7) f'(7) by simp
    from f(3)[OF C] f'(3)[OF C']
    have "replicate (nat (- n)) 48 @ s = replicate (nat (- n')) 48 @ s'" by simp
    from strip_zeros_left[OF this p(1,2) p'(1,2)]
    have "s = s'" and "nat (- n) = nat (- n')" by blast+
    then have "int (nat (- n)) = int (nat (- n'))" by simp
    with C C' have "n = n'" by simp
    with \<open>s = s'\<close> show ?thesis by (rule same)
  next
    case D
    then have D': "21 < n' \<or> n' \<le> - 6" using f(8) f'(8) by simp
    let ?mant = "\<lambda>t::nat list. if length t = 1 then t else hd t # 46 # tl t"
    from f(4)[OF D] f'(4)[OF D']
    have e: "?mant s @ 101 # (if n - 1 < 0 then 45 else 43) # digitsOf (nat \<bar>n - 1\<bar>) =
             ?mant s' @ 101 # (if n' - 1 < 0 then 45 else 43) # digitsOf (nat \<bar>n' - 1\<bar>)"
      by simp
    have "101 \<notin> set (?mant s)" "101 \<notin> set (?mant s')"
      using p(1,5) p'(1,5) by (auto dest: list.set_sel)
    from split_at_separator[OF e this]
    have mt: "?mant s = ?mant s'"
      and sg: "(if n - 1 < 0 then 45 else 43::nat) = (if n' - 1 < 0 then 45 else 43)"
      and dg: "digitsOf (nat \<bar>n - 1\<bar>) = digitsOf (nat \<bar>n' - 1\<bar>)"
      by simp_all
    from mantissa_inj[OF mt p(1) p'(1) p(4) p'(4)] have "s = s'" .
    from dg have "nat \<bar>n - 1\<bar> = nat \<bar>n' - 1\<bar>" by (rule digitsOf_inj)
    moreover from sg have "(n - 1 < 0) = (n' - 1 < 0)" by (auto split: if_splits)
    ultimately have "n = n'" by linarith
    with \<open>s = s'\<close> show ?thesis by (rule same)
  qed
qed

lemma positiveToString_not_zero:
  fixes m :: nat and e :: int
  assumes "0 < m" and "m mod 10 \<noteq> 0"
  shows "positiveToString m e \<noteq> [48]"
proof
  assume z: "positiveToString m e = [48]"
  note f = positiveToString_format[OF assms, of e]
  note p = digitsOf_props[OF assms]
  from z f(5) have A: "int (length (digitsOf m)) \<le> int (length (digitsOf m)) + e \<and>
      int (length (digitsOf m)) + e \<le> 21"
    by simp
  from f(1)[OF A] z p(1) have "hd (digitsOf m) = 48"
    by (cases "digitsOf m") auto
  with p(2) show False by simp
qed

lemma nat_mod_10:
  fixes i :: int
  assumes "0 < i" and "i mod 10 \<noteq> 0"
  shows "0 < nat i" and "nat i mod 10 \<noteq> 0"
proof -
  show "0 < nat i" using assms(1) by simp
  have "nat i mod 10 = nat (i mod 10)" using assms(1) by (simp add: nat_mod_distrib)
  moreover have "0 \<le> i mod 10" by simp
  ultimately show "nat i mod 10 \<noteq> 0" using assms(2) by simp
qed

lemma positiveToString_hd:
  fixes m :: nat and e :: int
  assumes "0 < m" and "m mod 10 \<noteq> 0"
  shows "positiveToString m e \<noteq> [] \<and> 48 \<le> hd (positiveToString m e) \<and>
         hd (positiveToString m e) \<le> 57"
proof -
  define s where "s = digitsOf m"
  note p = digitsOf_props[OF assms, folded s_def]
  have d: "48 \<le> hd s \<and> hd s \<le> 57" using digitsOf_digits[of m] p(1) by (cases s) (auto simp: s_def)
  have t: "hd (take (nat n) s) = hd s" if "0 < n" for n :: int
    using that p(1) by (cases s) (auto simp: take_Cons')
  have t1: "take (Suc 0) s = [hd s]" using p(1) by (cases s) auto
  show ?thesis
    using d p(1) t t1
    by (auto simp: positiveToString_def Let_def hd_append s_def[symmetric])
qed

lemma finiteToString_cases:
  assumes "normalised (Finite m e)"
  obtains (zero) "m = 0" "e = 0" "numToString (Finite m e) = [48]"
  | (pos) "0 < m" "m mod 10 \<noteq> 0" "numToString (Finite m e) = positiveToString (nat m) e"
  | (neg) "0 < - m" "(- m) mod 10 \<noteq> 0"
      "numToString (Finite m e) = 45 # positiveToString (nat (- m)) e"
proof -
  have "(- m) mod 10 \<noteq> 0" if "m mod 10 \<noteq> 0" using that by presburger
  then show ?thesis
    using assms that by (cases "m = 0"; cases "0 < m") (auto simp: normalised_def)
qed

lemma finiteToString_inj:
  assumes "normalised (Finite m e)" and "normalised (Finite m' e')"
    and eq: "numToString (Finite m e) = numToString (Finite m' e')"
  shows "m = m' \<and> e = e'"
proof -
  have h: "positiveToString (nat i) j \<noteq> [] \<and> 48 \<le> hd (positiveToString (nat i) j)"
    if "0 < i" "i mod 10 \<noteq> 0" for i j :: int
    using positiveToString_hd[OF nat_mod_10[OF that], of j] by simp
  have nz: "positiveToString (nat i) j \<noteq> [48]" if "0 < i" "i mod 10 \<noteq> 0" for i j :: int
    using nat_mod_10[OF that] by (rule positiveToString_not_zero)
  have minus: "45 # a \<noteq> b" if "b \<noteq> [] \<and> 48 \<le> hd b" for a b :: "nat list"
    using that by (cases b) auto
  have pos: "i = i' \<and> j = j'"
    if "positiveToString (nat i) j = positiveToString (nat i') j'"
      "0 < i" "i mod 10 \<noteq> 0" "0 < i'" "i' mod 10 \<noteq> 0" for i j i' j' :: int
  proof -
    have "nat i = nat i' \<and> j = j'"
      using that(1) nat_mod_10[OF that(2,3)] nat_mod_10[OF that(4,5)]
      by (intro positiveToString_inj)
    with that show ?thesis by arith
  qed
  from assms(1) show ?thesis
  proof (cases rule: finiteToString_cases)
    case zero
    from assms(2) show ?thesis
    proof (cases rule: finiteToString_cases)
      case zero': zero
      with zero show ?thesis by simp
    next
      case pos': pos
      with zero eq nz[OF pos'(1,2), of e'] show ?thesis by simp
    next
      case neg': neg
      with zero eq show ?thesis by simp
    qed
  next
    case pos1: pos
    from assms(2) show ?thesis
    proof (cases rule: finiteToString_cases)
      case zero
      with pos1 eq nz[OF pos1(1,2), of e] show ?thesis by simp
    next
      case pos': pos
      with pos1 eq show ?thesis by (intro pos) simp_all
    next
      case neg': neg
      with pos1 eq minus[OF h[OF pos1(1,2), of e]] show ?thesis by metis
    qed
  next
    case neg1: neg
    from assms(2) show ?thesis
    proof (cases rule: finiteToString_cases)
      case zero
      with neg1 eq show ?thesis by simp
    next
      case pos': pos
      with neg1 eq minus[OF h[OF pos'(1,2), of e']] show ?thesis by metis
    next
      case neg': neg
      with neg1 eq have "positiveToString (nat (- m)) e = positiveToString (nat (- m')) e'"
        by simp
      from pos[OF this neg1(1,2) neg'(1,2)] show ?thesis by simp
    qed
  qed
qed

lemma finite_not_special:
  assumes "normalised (Finite m e)"
  shows "numToString (Finite m e) \<noteq> numToString NaN"
    and "numToString (Finite m e) \<noteq> numToString PosInfinity"
    and "numToString (Finite m e) \<noteq> numToString NegInfinity"
proof -
  have h: "48 \<le> hd (positiveToString (nat i) j) \<and> hd (positiveToString (nat i) j) \<le> 57"
    if "0 < i" "i mod 10 \<noteq> 0" for i j :: int
    using positiveToString_hd[OF nat_mod_10[OF that], of j] by simp
  from assms
  show "numToString (Finite m e) \<noteq> numToString NaN"
  proof (cases rule: finiteToString_cases)
    case pos
    with h[OF pos(1,2), of e] show ?thesis by (auto simp: ascii_def)
  qed (simp_all add: ascii_def)
  from assms
  show "numToString (Finite m e) \<noteq> numToString PosInfinity"
  proof (cases rule: finiteToString_cases)
    case pos
    with h[OF pos(1,2), of e] show ?thesis by (auto simp: ascii_def)
  qed (simp_all add: ascii_def)
  from assms
  show "numToString (Finite m e) \<noteq> numToString NegInfinity"
  proof (cases rule: finiteToString_cases)
    case pos
    with h[OF pos(1,2), of e] show ?thesis by (auto simp: ascii_def)
  next
    case neg
    with h[OF neg(1,2), of e] show ?thesis by (auto simp: ascii_def)
  qed (simp_all add: ascii_def)
qed

lemma numToString_inj:
  assumes "normalised x" and "normalised y" and "numToString x = numToString y"
  shows "x = y"
proof (cases x)
  case NaN
  with assms finite_not_special(1)[of _ _] show ?thesis
    by (cases y) (auto simp: ascii_def)
next
  case PosInfinity
  with assms finite_not_special(2)[of _ _] show ?thesis
    by (cases y) (auto simp: ascii_def)
next
  case NegInfinity
  with assms finite_not_special(3)[of _ _] show ?thesis
    by (cases y) (auto simp: ascii_def)
next
  case (Finite m e)
  show ?thesis
  proof (cases y)
    case (Finite m' e')
    with \<open>x = Finite m e\<close> assms finiteToString_inj[of m e m' e'] show ?thesis by simp
  next
    case NaN
    with \<open>x = Finite m e\<close> assms finite_not_special(1)[of m e] show ?thesis by simp
  next
    case PosInfinity
    with \<open>x = Finite m e\<close> assms finite_not_special(2)[of m e] show ?thesis by simp
  next
    case NegInfinity
    with \<open>x = Finite m e\<close> assms finite_not_special(3)[of m e] show ?thesis by simp
  qed
qed

lemma digitsValue_last:
  assumes "ds \<noteq> []" and "48 \<le> last ds"
  shows "digitsValue ds mod 10 = (last ds - 48) mod 10"
proof -
  have "ds = butlast ds @ [last ds]" using assms(1) by simp
  then have "digitsValue ds = 10 * digitsValue (butlast ds) + (last ds - 48)"
    by (metis digitsValue_snoc)
  then show ?thesis by simp
qed

lemma mkFinite_normalised:
  assumes "\<forall>c\<in>set ds. isDigit c"
  shows "normalised (mkFinite neg ds e)"
proof -
  define z where "z = length (takeWhile (\<lambda>c. c = 48) (rev ds))"
  define sig where "sig = take (length ds - z) ds"
  have sig: "sig = rev (dropWhile (\<lambda>c. c = 48) (rev ds))"
  proof -
    have "z \<le> length ds"
      unfolding z_def using length_takeWhile_le[of "\<lambda>c. c = 48" "rev ds"] by simp
    then have "length ds - (length ds - z) = z" by arith
    then have "rev sig = drop z (rev ds)" by (simp add: sig_def rev_take)
    also have "\<dots> = dropWhile (\<lambda>c. c = 48) (rev ds)"
      unfolding z_def by (rule dropWhile_eq_drop[symmetric])
    finally show ?thesis by (simp add: rev_swap)
  qed
  have nz: "digitsValue sig mod 10 \<noteq> 0" if "sig \<noteq> []"
  proof -
    from that have d: "dropWhile (\<lambda>c. c = 48) (rev ds) \<noteq> []" by (simp add: sig)
    have "last sig = hd (dropWhile (\<lambda>c. c = 48) (rev ds))" using d by (simp add: sig last_rev)
    moreover have "hd (dropWhile (\<lambda>c. c = 48) (rev ds)) \<noteq> 48" using hd_dropWhile[OF d] by simp
    moreover have "last sig \<in> set ds" using that by (metis in_set_takeD last_in_set sig_def)
    ultimately have "48 < last sig \<and> last sig \<le> 57" using assms by (auto simp: isDigit_def)
    then have "(last sig - 48) mod 10 \<noteq> 0" by auto
    moreover have "digitsValue sig mod 10 = (last sig - 48) mod 10"
      using that \<open>48 < last sig \<and> last sig \<le> 57\<close> by (intro digitsValue_last) simp_all
    ultimately show ?thesis by simp
  qed
  have z0: "digitsValue sig = 0" if "sig = []" using that by (simp add: digitsValue_def)
  have im: "int (digitsValue sig) mod 10 \<noteq> 0" "(- int (digitsValue sig)) mod 10 \<noteq> 0" if "sig \<noteq> []"
    using nz[OF that] by presburger+
  show ?thesis
    using z0 im
    by (cases "sig = []") (auto simp: mkFinite_def Let_def normalised_def z_def[symmetric] sig_def[symmetric])
qed

lemma parseFloat_normalised: "normalised (parseFloat s)"
proof -
  have "normalised (mkFinite neg ds e)" if "unsignedDecimal u = Some (ds, e)" for neg u ds e
  proof -
    from that have "\<forall>c\<in>set ds. isDigit c"
      by (auto simp: unsignedDecimal_def Let_def split: if_splits dest: set_takeWhileD)
    then show ?thesis by (rule mkFinite_normalised)
  qed
  moreover have "normalised NaN" "normalised PosInfinity" "normalised NegInfinity"
    by (simp_all add: normalised_def)
  ultimately show ?thesis
    by (auto simp: parseFloat_def Let_def split: option.splits)
qed

lemma makeId_injective:
  assumes "makeId d t a b = makeId d' t' a' b'" and "length d = length d'"
  shows "d = d' \<and> t = t' \<and> numToString a = numToString a' \<and> numToString b = numToString b'"
proof -
  let ?A = "numToString a" and ?B = "numToString b" and ?A' = "numToString a'" and ?B' = "numToString b'"
  from assms have "d = d'" and r: "t @ 95 # ?A @ 95 # ?B = t' @ 95 # ?A' @ 95 # ?B'"
    by (simp_all add: makeId_def)
  from r have "rev (t @ 95 # ?A @ 95 # ?B) = rev (t' @ 95 # ?A' @ 95 # ?B')" by simp
  then have "rev ?B @ 95 # (rev ?A @ 95 # rev t) = rev ?B' @ 95 # (rev ?A' @ 95 # rev t')" by simp
  then have b: "rev ?B = rev ?B'" and r2: "rev ?A @ 95 # rev t = rev ?A' @ 95 # rev t'"
    using split_at_separator[of "rev ?B" 95 _ "rev ?B'"] numToString_no_underscore by auto
  from r2 have "rev ?A = rev ?A'" and "rev t = rev t'"
    using split_at_separator[of "rev ?A" 95 "rev t" "rev ?A'" "rev t'"] numToString_no_underscore by auto
  with b \<open>d = d'\<close> show ?thesis by simp
qed

text \<open>On the server two records have the same id exactly when they have the same
  date, time, latitude and longitude (the same values: a latitude \<open>NaN\<close> is the same as a
  latitude \<open>NaN\<close>).\<close>

lemma server_numbers_normalised:
  assumes "server_parseLine line = Some r"
  shows "normalised (latitude r)" and "normalised (longitude r)"
  using assms parseFloat_normalised
  by (auto simp: server_parseLine_def Let_def split: if_splits)

lemma server_id_injective:
  assumes "server_parseLine line = Some r" and "server_parseLine line' = Some r'"
  shows "id' r = id' r' \<longleftrightarrow>
         date r = date r' \<and> time r = time r' \<and>
         latitude r = latitude r' \<and> longitude r = longitude r'"
proof
  assume eq: "id' r = id' r'"
  have "makeId (date r) (time r) (latitude r) (longitude r) =
        makeId (date r') (time r') (latitude r') (longitude r')"
    using assms eq id_of_key_fields(2) by metis
  moreover have "length (date r) = length (date r')"
    using assms by (simp add: server_date_length)
  ultimately have "date r = date r' \<and> time r = time r' \<and>
      numToString (latitude r) = numToString (latitude r') \<and>
      numToString (longitude r) = numToString (longitude r')"
    by (rule makeId_injective)
  then show "date r = date r' \<and> time r = time r' \<and>
      latitude r = latitude r' \<and> longitude r = longitude r'"
    using server_numbers_normalised[OF assms(1)] server_numbers_normalised[OF assms(2)]
    by (auto intro: numToString_inj)
next
  assume "date r = date r' \<and> time r = time r' \<and>
      latitude r = latitude r' \<and> longitude r = longitude r'"
  then show "id' r = id' r'"
    using assms id_of_key_fields(2) by metis
qed

text \<open>
  Claim C9: two records that the parser produces have the same id if and only if they
  have the same date, time, latitude and longitude; the id is a function of these four
  fields and injective on them.

  The id joins the four fields with \<open>_\<close>. On the server the date has its ten code
  units and the claim holds, as shown above. The client takes the first two tokens of any
  candidate line as date and time, so that a \<open>_\<close> inside them moves the boundary: the
  two lines below give the dates \<open>KOERI_2024.03.15\<close> and \<open>KOERI\<close>, the times
  \<open>14:23:11\<close> and \<open>2024.03.15_14:23:11\<close>, and one id.
\<close>

theorem client_id_collision:
  "map date (client_parseEarthquakeData
     (ascii ''KOERI_2024.03.15 14:23:11 38.4521 27.1234 7.3 -.- 3.2 -.- IZMIR Ilksel'' @ 10 #
      ascii ''KOERI 2024.03.15_14:23:11 38.4521 27.1234 7.3 -.- 3.2 -.- IZMIR Ilksel'')) =
     [ascii ''KOERI_2024.03.15'', ascii ''KOERI''] \<and>
   map time (client_parseEarthquakeData
     (ascii ''KOERI_2024.03.15 14:23:11 38.4521 27.1234 7.3 -.- 3.2 -.- IZMIR Ilksel'' @ 10 #
      ascii ''KOERI 2024.03.15_14:23:11 38.4521 27.1234 7.3 -.- 3.2 -.- IZMIR Ilksel'')) =
     [ascii ''14:23:11'', ascii ''2024.03.15_14:23:11''] \<and>
   map id' (client_parseEarthquakeData
     (ascii ''KOERI_2024.03.15 14:23:11 38.4521 27.1234 7.3 -.- 3.2 -.- IZMIR Ilksel'' @ 10 #
      ascii ''KOERI 2024.03.15_14:23:11 38.4521 27.1234 7.3 -.- 3.2 -.- IZMIR Ilksel'')) =
     [ascii ''KOERI_2024.03.15_14:23:11_38.4521_27.1234'',
      ascii ''KOERI_2024.03.15_14:23:11_38.4521_27.1234'']"
proof -
  have "client_parseEarthquakeData
     (ascii ''KOERI_2024.03.15 14:23:11 38.4521 27.1234 7.3 -.- 3.2 -.- IZMIR Ilksel'' @ 10 #
      ascii ''KOERI 2024.03.15_14:23:11 38.4521 27.1234 7.3 -.- 3.2 -.- IZMIR Ilksel'') =
    [\<lparr> date = ascii ''KOERI_2024.03.15'', time = ascii ''14:23:11'',
       latitude = Finite 384521 (- 4), longitude = Finite 271234 (- 4),
       depth = Finite 73 (- 1), magnitudeMD = None, magnitudeML = Some (Finite 32 (- 1)),
       magnitudeMw = None, location = ascii ''IZMIR'', solutionQuality = ascii ''Ilksel'',
       id' = ascii ''KOERI_2024.03.15_14:23:11_38.4521_27.1234'' \<rparr>,
     \<lparr> date = ascii ''KOERI'', time = ascii ''2024.03.15_14:23:11'',
       latitude = Finite 384521 (- 4), longitude = Finite 271234 (- 4),
       depth = Finite 73 (- 1), magnitudeMD = None, magnitudeML = Some (Finite 32 (- 1)),
       magnitudeMw = None, location = ascii ''IZMIR'', solutionQuality = ascii ''Ilksel'',
       id' = ascii ''KOERI_2024.03.15_14:23:11_38.4521_27.1234'' \<rparr>]"
    by (simp add: string_eval number_eval client_eval Let_def cong: let_weak_cong)
  then show ?thesis by (simp only: list.map Earthquake.simps simp_thms)
qed

end
